theory Spec2Isabelle
  imports Complex_Main
begin

section \<open>Runtime pieces the services rely on\<close>

text \<open>
  A JavaScript \<^verbatim>\<open>Map\<close> keeps its entries in insertion order: \<^verbatim>\<open>set\<close> on a key that is
  present replaces the value in place, \<^verbatim>\<open>set\<close> on a new key appends, \<^verbatim>\<open>delete\<close> removes
  the entry. It is modelled as an association list.
\<close>

fun Map_set :: "'k \<Rightarrow> 'v \<Rightarrow> ('k \<times> 'v) list \<Rightarrow> ('k \<times> 'v) list" where
  "Map_set k v [] = [(k, v)]"
| "Map_set k v ((k', v') # m) = (if k' = k then (k, v) # m else (k', v') # Map_set k v m)"

definition Map_get :: "('k \<times> 'v) list \<Rightarrow> 'k \<Rightarrow> 'v option" where
  "Map_get m k = map_of m k"

definition Map_has :: "('k \<times> 'v) list \<Rightarrow> 'k \<Rightarrow> bool" where
  "Map_has m k = (map_of m k \<noteq> None)"

definition Map_delete :: "'k \<Rightarrow> ('k \<times> 'v) list \<Rightarrow> ('k \<times> 'v) list" where
  "Map_delete k m = filter (\<lambda>e. fst e \<noteq> k) m"

definition Map_values :: "('k \<times> 'v) list \<Rightarrow> 'v list" where
  "Map_values m = map snd m"

text \<open>
  \<^verbatim>\<open>Array.prototype.sort(cmp)\<close> is stable: \<^verbatim>\<open>a\<close> goes before \<^verbatim>\<open>b\<close> when
  \<^verbatim>\<open>cmp(a, b) < 0\<close>, after it when \<^verbatim>\<open>cmp(a, b) > 0\<close>, and elements that compare equal
  keep their order. The model is a stable insertion sort driven by the comparator.
\<close>

fun sort_insert :: "('a \<Rightarrow> 'a \<Rightarrow> 'n::linordered_idom) \<Rightarrow> 'a \<Rightarrow> 'a list \<Rightarrow> 'a list" where
  "sort_insert cmp x [] = [x]"
| "sort_insert cmp x (y # ys) = (if cmp x y \<le> 0 then x # y # ys else y # sort_insert cmp x ys)"

definition Array_sort :: "('a \<Rightarrow> 'a \<Rightarrow> 'n::linordered_idom) \<Rightarrow> 'a list \<Rightarrow> 'a list" where
  "Array_sort cmp xs = foldr (sort_insert cmp) xs []"

text \<open>\<^verbatim>\<open>Math.round\<close> rounds halves upwards.\<close>

definition Math_round :: "rat \<Rightarrow> int" where
  "Math_round x = \<lfloor>x + 1 / 2\<rfloor>"

section \<open>Types (types/index.ts)\<close>

text \<open>
  A \<^verbatim>\<open>number\<close> that the code only ever sets to an integer (loads, capacities, priorities,
  rounded telemetry) is an \<open>int\<close>; a \<^verbatim>\<open>Date\<close> is the \<open>int\<close> of its milliseconds; fractions
  (load ratios, values of \<^verbatim>\<open>Math.random()\<close>) are rationals. Optional fields are options.
\<close>

datatype WorkerStatus = Online | Offline | Busy

datatype TaskStatus = Pending | Assigned | Processing | Completed | Failed

datatype TaskType = chat_completion

record GpuInfo =
  name :: string
  memoryTotal :: int
  memoryUsed :: int
  utilization :: int

record WorkerNode =
  worker_id :: string
  hostname :: string
  worker_status :: WorkerStatus
  gpuInfo :: GpuInfo
  currentLoad :: int
  maxCapacity :: int
  supportedModels :: "string list"
  lastHeartbeat :: int

record ChatMessage =
  role :: string
  content :: string

text \<open>The optional sampling parameters of a request play no part in dispatching.\<close>

record ChatCompletionRequest =
  model :: string
  messages :: "ChatMessage list"

record ChatCompletionResponse =
  response_id :: string
  response_model :: string
  choices :: "ChatMessage list"

record InferenceTask =
  task_id :: string
  task_type :: TaskType
  payload :: ChatCompletionRequest
  apiKeyId :: string
  priority :: int
  task_status :: TaskStatus
  assignedWorker :: "string option"
  result :: "ChatCompletionResponse option"
  error :: "string option"
  createdAt :: int
  startedAt :: "int option"
  completedAt :: "int option"

text \<open>
  A \<^verbatim>\<open>Partial<T>\<close> argument is merged over the stored object
  (\<^verbatim>\<open>{ ...existing, ...updates }\<close>); it is modelled as the record update it performs.
\<close>

type_synonym 'a Partial = "'a \<Rightarrow> 'a"

section \<open>The in-memory store (services/store.ts)\<close>

record DataStore =
  workers :: "(string \<times> WorkerNode) list"
  tasks :: "(string \<times> InferenceTask) list"

definition addWorker :: "WorkerNode \<Rightarrow> DataStore \<Rightarrow> DataStore" where
  "addWorker worker st = st\<lparr>workers := Map_set (worker_id worker) worker (workers st)\<rparr>"

definition getWorker :: "DataStore \<Rightarrow> string \<Rightarrow> WorkerNode option" where
  "getWorker st i = Map_get (workers st) i"

definition getAllWorkers :: "DataStore \<Rightarrow> WorkerNode list" where
  "getAllWorkers st = Map_values (workers st)"

definition getOnlineWorkers :: "DataStore \<Rightarrow> WorkerNode list" where
  "getOnlineWorkers st = filter (\<lambda>w. worker_status w = Online) (getAllWorkers st)"

definition updateWorker :: "string \<Rightarrow> WorkerNode Partial \<Rightarrow> DataStore \<Rightarrow> DataStore" where
  "updateWorker i updates st =
     (case Map_get (workers st) i of
        None \<Rightarrow> st
      | Some existing \<Rightarrow> st\<lparr>workers := Map_set i (updates existing) (workers st)\<rparr>)"

definition removeWorker :: "string \<Rightarrow> DataStore \<Rightarrow> bool \<times> DataStore" where
  "removeWorker i st = (Map_has (workers st) i, st\<lparr>workers := Map_delete i (workers st)\<rparr>)"

definition addTask :: "InferenceTask \<Rightarrow> DataStore \<Rightarrow> DataStore" where
  "addTask task st = st\<lparr>tasks := Map_set (task_id task) task (tasks st)\<rparr>"

definition getTask :: "DataStore \<Rightarrow> string \<Rightarrow> InferenceTask option" where
  "getTask st i = Map_get (tasks st) i"

definition getPendingTasks :: "DataStore \<Rightarrow> InferenceTask list" where
  "getPendingTasks st =
     Array_sort (\<lambda>a b. priority b - priority a)
       (filter (\<lambda>t. task_status t = Pending) (Map_values (tasks st)))"

definition updateTask :: "string \<Rightarrow> InferenceTask Partial \<Rightarrow> DataStore \<Rightarrow> DataStore" where
  "updateTask i updates st =
     (case Map_get (tasks st) i of
        None \<Rightarrow> st
      | Some existing \<Rightarrow> st\<lparr>tasks := Map_set i (updates existing) (tasks st)\<rparr>)"

definition getAllTasks :: "DataStore \<Rightarrow> InferenceTask list" where
  "getAllTasks st = Map_values (tasks st)"

section \<open>The process state\<close>

text \<open>
  Besides the store, the process holds the task queue's \<^verbatim>\<open>processing\<close> flag and its
  \<^verbatim>\<open>taskCallbacks\<close> map, and the timers armed with \<^verbatim>\<open>setTimeout\<close>. Each promise returned
  by \<^verbatim>\<open>waitForCompletion\<close> is identified by a number; \<open>settled\<close> lists, in order, every
  call of a promise's \<^verbatim>\<open>resolve\<close> or \<^verbatim>\<open>reject\<close>. \<open>console\<close> holds the task queue's log
  lines, and \<open>issued\<close> the identifiers \<^verbatim>\<open>uuidv4\<close> has handed out.
\<close>

datatype js_any = Undefined | Response ChatCompletionResponse | Success "string option"

datatype settlement = Resolved js_any | Rejected string

datatype console_line =
    TaskAdded string
  | TaskAssigned string string
  | TaskCompleted string string

record System =
  store :: DataStore
  processing :: bool
  taskCallbacks :: "(string \<times> nat) list"
  nextPromise :: nat
  settled :: "(nat \<times> settlement) list"
  waiterTimers :: "(string \<times> nat) list"
  processingTimers :: "(string \<times> string) list"
  console :: "console_line list"
  issued :: "string list"

definition initial :: System where
  "initial = \<lparr>store = \<lparr>workers = [], tasks = []\<rparr>, processing = False, taskCallbacks = [],
     nextPromise = 0, settled = [], waiterTimers = [], processingTimers = [], console = [],
     issued = []\<rparr>"

definition settle :: "nat \<Rightarrow> settlement \<Rightarrow> System \<Rightarrow> System" where
  "settle p outcome s = s\<lparr>settled := settled s @ [(p, outcome)]\<rparr>"

definition console_log :: "console_line \<Rightarrow> System \<Rightarrow> System" where
  "console_log l s = s\<lparr>console := console s @ [l]\<rparr>"

section \<open>The task queue (services/taskQueue.ts)\<close>

definition getAvailableWorkers :: "DataStore \<Rightarrow> WorkerNode list" where
  "getAvailableWorkers st = filter (\<lambda>w. currentLoad w < maxCapacity w) (getOnlineWorkers st)"

text \<open>
  The load ratio is a quotient of two small integers; the rationals order such quotients as
  the doubles of the source do. Where \<open>maxCapacity\<close> is zero the quotient of the source is
  \<^verbatim>\<open>NaN\<close> or an infinity, which the rationals do not have (a quotient by zero is \<open>0\<close>
  there): the model agrees with the source on workers of positive capacity only, and what is
  proved about ratios is proved for such workers. Every worker that \<^verbatim>\<open>createWorker\<close>
  registers has a capacity of 6, 7, 10 or 15.
\<close>

definition loadRatio :: "WorkerNode \<Rightarrow> rat" where
  "loadRatio w = of_int (currentLoad w) / of_int (maxCapacity w)"

definition sortByLoadRatio :: "WorkerNode list \<Rightarrow> WorkerNode list" where
  "sortByLoadRatio ws = Array_sort (\<lambda>a b. loadRatio a - loadRatio b) ws"

definition selectBestWorker :: "WorkerNode list \<Rightarrow> InferenceTask \<Rightarrow> WorkerNode option" where
  "selectBestWorker ws task =
     (if length ws = 0 then None
      else case sortByLoadRatio ws of [] \<Rightarrow> None | w # _ \<Rightarrow> Some w)"

definition simulateTaskProcessing :: "InferenceTask \<Rightarrow> WorkerNode \<Rightarrow> int \<Rightarrow> System \<Rightarrow> System" where
  "simulateTaskProcessing task worker now s =
     (let s1 = s\<lparr>store := updateTask (task_id task)
                   (\<lambda>t. t\<lparr>task_status := Processing, startedAt := Some now\<rparr>) (store s)\<rparr>
      in s1\<lparr>processingTimers := processingTimers s1 @ [(task_id task, worker_id worker)]\<rparr>)"

definition assignTaskToWorker :: "InferenceTask \<Rightarrow> WorkerNode \<Rightarrow> int \<Rightarrow> System \<Rightarrow> System" where
  "assignTaskToWorker task worker now s =
     (let s1 = s\<lparr>store := updateTask (task_id task)
                   (\<lambda>t. t\<lparr>task_status := Assigned, assignedWorker := Some (worker_id worker)\<rparr>)
                   (store s)\<rparr>;
          s2 = s1\<lparr>store := updateWorker (worker_id worker)
                   (\<lambda>w. w\<lparr>currentLoad := currentLoad worker + 1\<rparr>) (store s1)\<rparr>;
          s3 = console_log (TaskAssigned (task_id task) (worker_id worker)) s2
      in simulateTaskProcessing task worker now s3)"

text \<open>\<^verbatim>\<open>findIndex\<close> followed by \<^verbatim>\<open>splice(index, 1)\<close>: the first entry with that id goes.\<close>

fun spliceWorker :: "string \<Rightarrow> WorkerNode list \<Rightarrow> WorkerNode list" where
  "spliceWorker i [] = []"
| "spliceWorker i (w # ws) = (if worker_id w = i then ws else w # spliceWorker i ws)"

text \<open>
  The body of the \<^verbatim>\<open>for\<close> loop of \<^verbatim>\<open>processQueue\<close>. \<^verbatim>\<open>selectBestWorker\<close> sorts the array
  it is given in place, so the pool carried to the next round is the sorted one.
\<close>

fun processLoop :: "InferenceTask list \<Rightarrow> WorkerNode list \<Rightarrow> int \<Rightarrow> System \<Rightarrow> System" where
  "processLoop [] availableWorkers now s = s"
| "processLoop (task # rest) availableWorkers now s =
     (if length availableWorkers = 0 then s
      else case selectBestWorker availableWorkers task of
             None \<Rightarrow> processLoop rest (sortByLoadRatio availableWorkers) now s
           | Some worker \<Rightarrow>
               processLoop rest (spliceWorker (worker_id worker) (sortByLoadRatio availableWorkers))
                 now (assignTaskToWorker task worker now s))"

definition processQueue :: "int \<Rightarrow> System \<Rightarrow> System" where
  "processQueue now s =
     (if processing s then s
      else
        let s1 = s\<lparr>processing := True\<rparr>;
            pendingTasks = getPendingTasks (store s1);
            availableWorkers = getAvailableWorkers (store s1);
            s2 = processLoop pendingTasks availableWorkers now s1
        in s2\<lparr>processing := False\<rparr>)"

definition enqueue ::
  "string \<Rightarrow> ChatCompletionRequest \<Rightarrow> string \<Rightarrow> int \<Rightarrow> int \<Rightarrow> System \<Rightarrow> System" where
  "enqueue uuid pl keyId prio now s =
     (let task = \<lparr>task_id = uuid, task_type = chat_completion, payload = pl, apiKeyId = keyId,
                  priority = prio, task_status = Pending, assignedWorker = None, result = None,
                  error = None, createdAt = now, startedAt = None, completedAt = None\<rparr>;
          s1 = s\<lparr>store := addTask task (store s), issued := uuid # issued s\<rparr>;
          s2 = console_log (TaskAdded uuid) s1
      in processQueue now s2)"

definition waitForCompletion :: "string \<Rightarrow> System \<Rightarrow> System" where
  "waitForCompletion taskId s =
     (let p = nextPromise s; s0 = s\<lparr>nextPromise := Suc p\<rparr>
      in case getTask (store s0) taskId of
           None \<Rightarrow> settle p (Rejected ''Task not found'') s0
         | Some task \<Rightarrow>
             if task_status task = Completed then
               settle p (Resolved (case result task of None \<Rightarrow> Undefined | Some r \<Rightarrow> Response r)) s0
             else if task_status task = Failed then
               settle p (Rejected (case error task of
                                     None \<Rightarrow> ''Task failed''
                                   | Some e \<Rightarrow> if e = [] then ''Task failed'' else e)) s0
             else s0\<lparr>taskCallbacks := Map_set taskId p (taskCallbacks s0),
                     waiterTimers := waiterTimers s0 @ [(taskId, p)]\<rparr>)"

text \<open>The callback armed by \<^verbatim>\<open>waitForCompletion\<close>; \<open>p\<close> is the promise whose \<^verbatim>\<open>reject\<close> it holds.\<close>

definition waiterTimeout :: "string \<Rightarrow> nat \<Rightarrow> System \<Rightarrow> System" where
  "waiterTimeout taskId p s =
     (if Map_has (taskCallbacks s) taskId then
        settle p (Rejected ''Task timeout'')
          (s\<lparr>taskCallbacks := Map_delete taskId (taskCallbacks s)\<rparr>)
      else s)"

definition resolveTask :: "string \<Rightarrow> js_any \<Rightarrow> System \<Rightarrow> System" where
  "resolveTask taskId res s =
     (case Map_get (taskCallbacks s) taskId of
        None \<Rightarrow> s
      | Some p \<Rightarrow> (settle p (Resolved res) s)\<lparr>taskCallbacks := Map_delete taskId (taskCallbacks s)\<rparr>)"

definition rejectTask :: "string \<Rightarrow> string \<Rightarrow> System \<Rightarrow> System" where
  "rejectTask taskId err s =
     (case Map_get (taskCallbacks s) taskId of
        None \<Rightarrow> s
      | Some p \<Rightarrow> (settle p (Rejected err) s)\<lparr>taskCallbacks := Map_delete taskId (taskCallbacks s)\<rparr>)"

text \<open>The callback armed by \<^verbatim>\<open>simulateTaskProcessing\<close> for a task and the worker it was given to.\<close>

definition processingDone :: "string \<Rightarrow> string \<Rightarrow> int \<Rightarrow> System \<Rightarrow> System" where
  "processingDone taskId workerId now s =
     (let s1 = s\<lparr>store := updateTask taskId
                   (\<lambda>t. t\<lparr>task_status := Completed, completedAt := Some now\<rparr>) (store s)\<rparr>;
          s2 = (case getWorker (store s1) workerId of
                  None \<Rightarrow> s1
                | Some updatedWorker \<Rightarrow>
                    s1\<lparr>store := updateWorker workerId
                          (\<lambda>w. w\<lparr>currentLoad := max 0 (currentLoad updatedWorker - 1)\<rparr>)
                          (store s1)\<rparr>);
          s3 = resolveTask taskId (Success (Some workerId)) s2
      in console_log (TaskCompleted taskId workerId) s3)"

section \<open>The worker manager (services/workerManager.ts)\<close>

record GpuModel =
  model_name :: string
  memory :: int
  baseThroughput :: int

definition GPU_MODELS :: "GpuModel list" where
  "GPU_MODELS =
     [\<lparr>model_name = ''NVIDIA A100'', memory = 80, baseThroughput = 100\<rparr>,
      \<lparr>model_name = ''NVIDIA H100'', memory = 80, baseThroughput = 150\<rparr>,
      \<lparr>model_name = ''NVIDIA RTX 4090'', memory = 24, baseThroughput = 60\<rparr>,
      \<lparr>model_name = ''NVIDIA RTX A6000'', memory = 48, baseThroughput = 70\<rparr>]"

text \<open>
  \<open>r1\<close>, \<open>r2\<close> and \<open>r3\<close> are the three values \<^verbatim>\<open>Math.random()\<close> returns, each in \<open>[0, 1)\<close>.
\<close>

definition createWorker ::
  "string \<Rightarrow> string \<Rightarrow> rat \<Rightarrow> rat \<Rightarrow> rat \<Rightarrow> int \<Rightarrow> DataStore \<Rightarrow> WorkerNode \<times> DataStore" where
  "createWorker uuid host r1 r2 r3 now st =
     (let gpuModel = GPU_MODELS ! nat \<lfloor>r1 * of_nat (length GPU_MODELS)\<rfloor>;
          worker = \<lparr>worker_id = uuid, hostname = host, worker_status = Online,
                    gpuInfo = \<lparr>name = model_name gpuModel, memoryTotal = memory gpuModel,
                               memoryUsed = \<lfloor>r2 * of_int (memory gpuModel) * (1 / 2)\<rfloor>,
                               utilization = \<lfloor>r3 * 60\<rfloor>\<rparr>,
                    currentLoad = 0,
                    maxCapacity = \<lfloor>(of_int (baseThroughput gpuModel) :: rat) / 10\<rfloor>,
                    supportedModels = [''gpt-3.5-turbo'', ''gpt-4'', ''llama-2-13b'', ''llama-2-70b''],
                    lastHeartbeat = now\<rparr>
      in (worker, addWorker worker st))"

record WorkerStats =
  total :: nat
  online :: nat
  offline :: nat
  busy :: nat
  totalGpuMemory :: int
  avgUtilization :: int

definition getWorkerStats :: "DataStore \<Rightarrow> WorkerStats" where
  "getWorkerStats st =
     (let ws = getAllWorkers st;
          onl = filter (\<lambda>w. worker_status w = Online) ws;
          bsy = filter (\<lambda>w. worker_status w = Busy) ws;
          totalMem = foldl (\<lambda>sum w. sum + memoryTotal (gpuInfo w)) 0 ws;
          avg = (if length ws > 0
                 then (of_int (foldl (\<lambda>sum w. sum + utilization (gpuInfo w)) 0 ws) :: rat)
                        / of_nat (length ws)
                 else 0)
      in \<lparr>total = length ws, online = length onl,
          offline = length (filter (\<lambda>w. worker_status w = Offline) ws),
          busy = length bsy, totalGpuMemory = totalMem, avgUtilization = Math_round avg\<rparr>)"

text \<open>
  One round of the heartbeat interval for one worker of the snapshot; \<open>r1\<close>, \<open>r2\<close>, \<open>r3\<close> are
  the values of \<^verbatim>\<open>Math.random()\<close> drawn for it.
\<close>

definition heartbeatUpdates :: "WorkerNode \<Rightarrow> rat \<times> rat \<times> rat \<Rightarrow> int \<Rightarrow> WorkerNode Partial" where
  "heartbeatUpdates worker draws now =
     (case draws of (r1, r2, r3) \<Rightarrow>
        let utilizationChange = (r1 - 1 / 2) * 10;
            newUtilization = max 0 (min 100 (of_int (utilization (gpuInfo worker)) + utilizationChange));
            memoryChange = (r2 - 1 / 2) * 2;
            newMemoryUsed = max 0 (min (of_int (memoryTotal (gpuInfo worker)))
                                     (of_int (memoryUsed (gpuInfo worker)) + memoryChange));
            newStatus = (if r3 < 2 / 100
                         then (if worker_status worker = Online then Offline else Online)
                         else worker_status worker)
        in (\<lambda>w. w\<lparr>gpuInfo := (gpuInfo worker)\<lparr>utilization := Math_round newUtilization,
                                              memoryUsed := Math_round newMemoryUsed\<rparr>,
                   worker_status := newStatus, lastHeartbeat := now\<rparr>))"

fun heartbeatLoop :: "WorkerNode list \<Rightarrow> (rat \<times> rat \<times> rat) list \<Rightarrow> int \<Rightarrow> DataStore \<Rightarrow> DataStore" where
  "heartbeatLoop (worker # ws) (d # ds) now st =
     heartbeatLoop ws ds now (updateWorker (worker_id worker) (heartbeatUpdates worker d now) st)"
| "heartbeatLoop ws ds now st = st"

definition heartbeat :: "(rat \<times> rat \<times> rat) list \<Rightarrow> int \<Rightarrow> DataStore \<Rightarrow> DataStore" where
  "heartbeat draws now st = heartbeatLoop (getAllWorkers st) draws now st"

section \<open>Runs of the process\<close>

text \<open>
  The process is single-threaded: each event below is one callback run to completion.
  The \<^verbatim>\<open>await\<close> inside the loop of \<^verbatim>\<open>processQueue\<close> waits for a promise that is already
  fulfilled, so the pass resumes from the microtask queue, before any timer or request
  callback can run. What can run while a pass is suspended there is a further call of
  \<^verbatim>\<open>enqueue\<close> made in the same turn: it finds \<^verbatim>\<open>processing\<close> set, stores its task and
  returns. The pass works on the lists it took at its start, which do not hold the new task,
  so the state it leaves is the one obtained by storing the task once the pass has ended;
  only the place of the \<open>TaskAdded\<close> line in the log differs. \<open>EnqueueInPass\<close> is that
  call: \<^verbatim>\<open>enqueue\<close> run with the flag set, the flag being cleared by the pass when it ends.

  The other events: a call of \<^verbatim>\<open>waitForCompletion\<close>; the firing of a timer armed by
  \<^verbatim>\<open>waitForCompletion\<close> or by \<^verbatim>\<open>simulateTaskProcessing\<close>; the calls of \<^verbatim>\<open>resolveTask\<close> and
  \<^verbatim>\<open>rejectTask\<close> made by the inference service; the registration and the removal of a
  worker; a round of the heartbeat interval. An identifier from \<^verbatim>\<open>uuidv4\<close> is new, a value
  of \<^verbatim>\<open>Math.random()\<close> lies in \<open>[0, 1)\<close>, and a timer fires only if it is armed.
\<close>

datatype event =
    Enqueue string ChatCompletionRequest string int int
  | EnqueueInPass string ChatCompletionRequest string int int
  | WaitForCompletion string
  | WaiterTimerFires string nat
  | ProcessingTimerFires string string int
  | ResolveTask string js_any
  | RejectTask string string
  | CreateWorker string string rat rat rat int
  | RemoveWorker string
  | HeartbeatTick "(rat \<times> rat \<times> rat) list" int

definition unit_draw :: "rat \<Rightarrow> bool" where
  "unit_draw r = (0 \<le> r \<and> r < 1)"

fun enabled :: "System \<Rightarrow> event \<Rightarrow> bool" where
  "enabled s (Enqueue uuid pl keyId prio now) = (uuid \<notin> set (issued s))"
| "enabled s (EnqueueInPass uuid pl keyId prio now) = (uuid \<notin> set (issued s))"
| "enabled s (WaitForCompletion taskId) = True"
| "enabled s (WaiterTimerFires taskId p) = ((taskId, p) \<in> set (waiterTimers s))"
| "enabled s (ProcessingTimerFires taskId workerId now) = ((taskId, workerId) \<in> set (processingTimers s))"
| "enabled s (ResolveTask taskId res) = True"
| "enabled s (RejectTask taskId err) = True"
| "enabled s (CreateWorker uuid host r1 r2 r3 now) =
     (uuid \<notin> set (issued s) \<and> unit_draw r1 \<and> unit_draw r2 \<and> unit_draw r3)"
| "enabled s (RemoveWorker workerId) = True"
| "enabled s (HeartbeatTick draws now) =
     (length draws = length (workers (store s))
      \<and> list_all (\<lambda>d. case d of (r1, r2, r3) \<Rightarrow> unit_draw r1 \<and> unit_draw r2 \<and> unit_draw r3) draws)"

fun step :: "System \<Rightarrow> event \<Rightarrow> System" where
  "step s (Enqueue uuid pl keyId prio now) = enqueue uuid pl keyId prio now s"
| "step s (EnqueueInPass uuid pl keyId prio now) =
     (enqueue uuid pl keyId prio now (s\<lparr>processing := True\<rparr>))\<lparr>processing := False\<rparr>"
| "step s (WaitForCompletion taskId) = waitForCompletion taskId s"
| "step s (WaiterTimerFires taskId p) =
     waiterTimeout taskId p (s\<lparr>waiterTimers := remove1 (taskId, p) (waiterTimers s)\<rparr>)"
| "step s (ProcessingTimerFires taskId workerId now) =
     processingDone taskId workerId now
       (s\<lparr>processingTimers := remove1 (taskId, workerId) (processingTimers s)\<rparr>)"
| "step s (ResolveTask taskId res) = resolveTask taskId res s"
| "step s (RejectTask taskId err) = rejectTask taskId err s"
| "step s (CreateWorker uuid host r1 r2 r3 now) =
     s\<lparr>store := snd (createWorker uuid host r1 r2 r3 now (store s)), issued := uuid # issued s\<rparr>"
| "step s (RemoveWorker workerId) = s\<lparr>store := snd (removeWorker workerId (store s))\<rparr>"
| "step s (HeartbeatTick draws now) = s\<lparr>store := heartbeat draws now (store s)\<rparr>"

inductive reachable :: "System \<Rightarrow> bool" where
  reachable_initial: "reachable initial"
| reachable_step: "reachable s \<Longrightarrow> enabled s e \<Longrightarrow> reachable (step s e)"

inductive reaches :: "System \<Rightarrow> System \<Rightarrow> bool" for s :: System where
  reaches_refl: "reaches s s"
| reaches_step: "reaches s s' \<Longrightarrow> enabled s' e \<Longrightarrow> reaches s (step s' e)"

text \<open>A list of events can run from a state when each is enabled where it is reached.\<close>

fun enabled_all :: "System \<Rightarrow> event list \<Rightarrow> bool" where
  "enabled_all s [] = True"
| "enabled_all s (e # es) = (enabled s e \<and> enabled_all (step s e) es)"

section \<open>Auxiliary notions for the proofs\<close>

text \<open>The task ids of the assignment lines of the log, in the order they were written.\<close>

fun assignedIds :: "console_line list \<Rightarrow> string list" where
  "assignedIds [] = []"
| "assignedIds (TaskAssigned t w # ls) = t # assignedIds ls"
| "assignedIds (l # ls) = assignedIds ls"

text \<open>The registry with every load blanked: what the dispatcher must leave alone.\<close>

definition except_load :: "DataStore \<Rightarrow> WorkerNode list" where
  "except_load st = map (\<lambda>w. w\<lparr>currentLoad := 0\<rparr>) (getAllWorkers st)"

text \<open>Invariants of the registry, of the pool of a scheduling pass, of tasks and of waiters.\<close>

definition load_ok :: "WorkerNode \<Rightarrow> bool" where
  "load_ok w = (0 \<le> currentLoad w \<and> currentLoad w \<le> maxCapacity w)"

definition registry_wf :: "DataStore \<Rightarrow> bool" where
  "registry_wf st =
     (distinct (map fst (workers st)) \<and> (\<forall>e \<in> set (workers st). worker_id (snd e) = fst e))"

definition pool_ok :: "DataStore \<Rightarrow> WorkerNode list \<Rightarrow> bool" where
  "pool_ok st ws = (\<forall>w \<in> set ws. 0 \<le> currentLoad w \<and> currentLoad w < maxCapacity w
      \<and> (\<forall>w'. getWorker st (worker_id w) = Some w' \<longrightarrow> maxCapacity w' = maxCapacity w))"

definition outcome_unset :: "InferenceTask \<Rightarrow> bool" where
  "outcome_unset t = (result t = None \<and> error t = None \<and> task_status t \<noteq> Failed)"

text \<open>
  Tasks are stored under their own identifiers, each handed out by \<^verbatim>\<open>uuidv4\<close>; the task of
  an armed processing timer is stored and no longer pending; no pass is running between two
  events.
\<close>

definition tasks_wf :: "System \<Rightarrow> bool" where
  "tasks_wf s =
     (distinct (map fst (tasks (store s)))
      \<and> (\<forall>e \<in> set (tasks (store s)). task_id (snd e) = fst e \<and> fst e \<in> set (issued s))
      \<and> (\<forall>e \<in> set (processingTimers s).
            \<exists>t. getTask (store s) (fst e) = Some t \<and> task_status t \<noteq> Pending)
      \<and> \<not> processing s)"

text \<open>
  Every registered waiter has its timer armed; promises are numbered below \<open>nextPromise\<close>;
  no two armed timers belong to one promise; a registered promise has not been settled.
\<close>

definition waiters_wf :: "System \<Rightarrow> bool" where
  "waiters_wf s =
     ((\<forall>e \<in> set (taskCallbacks s). e \<in> set (waiterTimers s))
      \<and> (\<forall>e \<in> set (waiterTimers s). snd e < nextPromise s)
      \<and> distinct (map snd (waiterTimers s))
      \<and> (\<forall>e \<in> set (settled s). fst e < nextPromise s)
      \<and> (\<forall>e \<in> set (taskCallbacks s). snd e \<notin> fst ` set (settled s)))"

section \<open>Concrete runs\<close>

definition req :: ChatCompletionRequest where
  "req = \<lparr>model = ''nvidia/nemotron-3-nano-30b-a3b'',
          messages = [\<lparr>role = ''user'', content = ''hello''\<rparr>]\<rparr>"

text \<open>Shorthands for the records that occur in the states below.\<close>

definition idle_worker :: "string \<Rightarrow> string \<Rightarrow> int \<Rightarrow> WorkerNode" where
  "idle_worker i host cap =
     \<lparr>worker_id = i, hostname = host, worker_status = Online,
       gpuInfo = \<lparr>name = ''NVIDIA A100'', memoryTotal = 80, memoryUsed = 0, utilization = 0\<rparr>,
       currentLoad = 0, maxCapacity = cap,
       supportedModels = [''gpt-3.5-turbo'', ''gpt-4'', ''llama-2-13b'', ''llama-2-70b''],
       lastHeartbeat = 0\<rparr>"

definition rtx_worker :: "string \<Rightarrow> string \<Rightarrow> int \<Rightarrow> int \<Rightarrow> WorkerNode" where
  "rtx_worker i host load beat =
     \<lparr>worker_id = i, hostname = host, worker_status = Online,
       gpuInfo = \<lparr>name = ''NVIDIA RTX 4090'', memoryTotal = 24, memoryUsed = 0, utilization = 0\<rparr>,
       currentLoad = load, maxCapacity = 6,
       supportedModels = [''gpt-3.5-turbo'', ''gpt-4'', ''llama-2-13b'', ''llama-2-70b''],
       lastHeartbeat = beat\<rparr>"

definition queued_task :: "string \<Rightarrow> int \<Rightarrow> int \<Rightarrow> InferenceTask" where
  "queued_task i prio t =
     \<lparr>task_id = i, task_type = chat_completion, payload = req, apiKeyId = ''key-1'',
       priority = prio, task_status = Pending, assignedWorker = None, result = None,
       error = None, createdAt = t, startedAt = None, completedAt = None\<rparr>"

definition running_task :: "string \<Rightarrow> int \<Rightarrow> string \<Rightarrow> int \<Rightarrow> InferenceTask" where
  "running_task i prio w t =
     \<lparr>task_id = i, task_type = chat_completion, payload = req, apiKeyId = ''key-1'',
       priority = prio, task_status = Processing, assignedWorker = Some w, result = None,
       error = None, createdAt = t, startedAt = Some t, completedAt = None\<rparr>"

text \<open>
  One worker is registered (the draw \<open>1/2\<close> picks the RTX 4090 profile, capacity 6), one task
  is enqueued and given to it at once, and a caller waits for the task. From there: a
  heartbeat takes the worker offline; or the processing timer fires; or the worker is removed
  and the processing timer fires afterwards; or the upstream call fails and the inference
  service calls \<^verbatim>\<open>rejectTask\<close>.
\<close>

definition one_worker :: System where
  "one_worker = step initial (CreateWorker ''w1'' ''worker-1'' (1 / 2) 0 0 0)"

definition one_task :: System where
  "one_task = step one_worker (Enqueue ''t1'' req ''key-1'' 0 10)"

definition one_waiter :: System where
  "one_waiter = step one_task (WaitForCompletion ''t1'')"

definition one_offline :: System where
  "one_offline = step one_task (HeartbeatTick [(1 / 2, 1 / 2, 0)] 1000)"

definition one_done :: System where
  "one_done = step one_task (ProcessingTimerFires ''t1'' ''w1'' 500)"

definition lost_worker :: System where
  "lost_worker = step one_waiter (RemoveWorker ''w1'')"

definition lost_worker_done :: System where
  "lost_worker_done = step lost_worker (ProcessingTimerFires ''t1'' ''w1'' 500)"

definition upstream_failed :: System where
  "upstream_failed = step one_waiter (RejectTask ''t1'' ''NVIDIA API error'')"

text \<open>
  A registry holding one online worker of capacity 1, put there with \<^verbatim>\<open>store.addWorker\<close>
  (the profiles of \<^verbatim>\<open>createWorker\<close> have capacities 6, 7, 10 and 15). Two tasks are
  enqueued, the processing timer of the first fires, and a third task is enqueued.
\<close>

definition single_slot :: System where
  "single_slot = initial\<lparr>store := addWorker
      \<lparr>worker_id = ''w1'', hostname = ''worker-1'', worker_status = Online,
        gpuInfo = \<lparr>name = ''NVIDIA RTX 4090'', memoryTotal = 24, memoryUsed = 0, utilization = 0\<rparr>,
        currentLoad = 0, maxCapacity = 1,
        supportedModels = [''gpt-3.5-turbo'', ''gpt-4'', ''llama-2-13b'', ''llama-2-70b''],
        lastHeartbeat = 0\<rparr> (store initial)\<rparr>"

definition two_enqueued :: System where
  "two_enqueued = step (step single_slot (Enqueue ''t1'' req ''key-1'' 0 10))
                    (Enqueue ''t2'' req ''key-1'' 0 10)"

definition first_done :: System where
  "first_done = step two_enqueued (ProcessingTimerFires ''t1'' ''w1'' 500)"

definition third_enqueued :: System where
  "third_enqueued = step first_done (Enqueue ''t3'' req ''key-1'' 0 600)"

text \<open>
  Four tasks of priorities 1, 5, 1, 3 are enqueued while no worker is registered, then five
  workers are registered, and a fifth task, of priority 1, is enqueued.
\<close>

definition backlog :: System where
  "backlog = foldl step initial
     [Enqueue ''t1'' req ''key-1'' 1 1,
      Enqueue ''t2'' req ''key-1'' 5 2,
      Enqueue ''t3'' req ''key-1'' 1 3,
      Enqueue ''t4'' req ''key-1'' 3 4,
      CreateWorker ''w1'' ''worker-1'' (1 / 2) 0 0 5,
      CreateWorker ''w2'' ''worker-2'' (1 / 2) 0 0 5,
      CreateWorker ''w3'' ''worker-3'' (1 / 2) 0 0 5,
      CreateWorker ''w4'' ''worker-4'' (1 / 2) 0 0 5,
      CreateWorker ''w5'' ''worker-5'' (1 / 2) 0 0 5]"

definition backlog_done :: System where
  "backlog_done = step backlog (Enqueue ''t5'' req ''key-1'' 1 6)"

text \<open>
  Three idle online workers of capacities 2, 4 and 8, put into the registry with
  \<^verbatim>\<open>store.addWorker\<close> in that order, and the same three workers in the opposite order.
\<close>

definition three_workers :: System where
  "three_workers = initial\<lparr>store :=
     addWorker (idle_worker ''wC'' ''worker-3'' 8)
       (addWorker (idle_worker ''wB'' ''worker-2'' 4)
         (addWorker (idle_worker ''wA'' ''worker-1'' 2) (store initial)))\<rparr>"

definition three_workers_rev :: System where
  "three_workers_rev = initial\<lparr>store :=
     addWorker (idle_worker ''wA'' ''worker-1'' 2)
       (addWorker (idle_worker ''wB'' ''worker-2'' 4)
         (addWorker (idle_worker ''wC'' ''worker-3'' 8) (store initial)))\<rparr>"

text \<open>
  A task of priority 0 is enqueued while no worker is registered and stays pending. Worker
  \<open>wB\<close> is registered and two tasks of priority 5 are enqueued: each pass has one worker in
  its pool and gives it the task of priority 5. Worker \<open>wA\<close> is registered, all within half
  a second. Enqueueing \<open>t4\<close> then starts a pass with two pending tasks and both workers in
  the pool: \<open>staggered_pass\<close> is the state in which its loop starts, \<open>staggered_mid\<close> the
  state after the first round of the loop, \<open>staggered_done\<close> the state after the call.
\<close>

definition staggered :: System where
  "staggered = foldl step initial
     [Enqueue ''t3'' req ''key-1'' 0 0,
      CreateWorker ''wB'' ''worker-1'' (1 / 2) 0 0 100,
      Enqueue ''t1'' req ''key-1'' 5 200,
      Enqueue ''t2'' req ''key-1'' 5 300,
      CreateWorker ''wA'' ''worker-2'' (1 / 2) 0 0 400]"

definition staggered_pass :: System where
  "staggered_pass = (console_log (TaskAdded ''t4'')
     (staggered\<lparr>store := addTask
         \<lparr>task_id = ''t4'', task_type = chat_completion, payload = req, apiKeyId = ''key-1'',
           priority = 0, task_status = Pending, assignedWorker = None, result = None,
           error = None, createdAt = 500, startedAt = None, completedAt = None\<rparr> (store staggered),
        issued := ''t4'' # issued staggered\<rparr>))\<lparr>processing := True\<rparr>"

definition staggered_mid :: System where
  "staggered_mid = assignTaskToWorker (hd (getPendingTasks (store staggered_pass)))
     (hd (sortByLoadRatio (getAvailableWorkers (store staggered_pass)))) 500 staggered_pass"

definition staggered_done :: System where
  "staggered_done = step staggered (Enqueue ''t4'' req ''key-1'' 0 500)"

text \<open>
  Five workers are registered, each of capacity 6, and then five tasks of priorities
  1, 5, 1, 3, 1 are enqueued, one call after the other.
\<close>

definition workers_first :: System where
  "workers_first = foldl step initial
     [CreateWorker ''w1'' ''worker-1'' (1 / 2) 0 0 0,
      CreateWorker ''w2'' ''worker-2'' (1 / 2) 0 0 0,
      CreateWorker ''w3'' ''worker-3'' (1 / 2) 0 0 0,
      CreateWorker ''w4'' ''worker-4'' (1 / 2) 0 0 0,
      CreateWorker ''w5'' ''worker-5'' (1 / 2) 0 0 0,
      Enqueue ''t1'' req ''key-1'' 1 1,
      Enqueue ''t2'' req ''key-1'' 5 2,
      Enqueue ''t3'' req ''key-1'' 1 3,
      Enqueue ''t4'' req ''key-1'' 3 4,
      Enqueue ''t5'' req ''key-1'' 1 5]"

text \<open>
  Four tasks of priorities 1, 5, 1, 3 are enqueued while no worker is registered, one worker
  of capacity 6 is registered, and a fifth task of priority 1 is enqueued. Later the
  processing timer of the task that was assigned fires.
\<close>

definition one_for_five :: System where
  "one_for_five = foldl step initial
     [Enqueue ''t1'' req ''key-1'' 1 1,
      Enqueue ''t2'' req ''key-1'' 5 2,
      Enqueue ''t3'' req ''key-1'' 1 3,
      Enqueue ''t4'' req ''key-1'' 3 4,
      CreateWorker ''w1'' ''worker-1'' (1 / 2) 0 0 5,
      Enqueue ''t5'' req ''key-1'' 1 6]"

definition one_for_five_done :: System where
  "one_for_five_done = step one_for_five (ProcessingTimerFires ''t2'' ''w1'' 500)"

text \<open>
  A task is enqueued while no worker is registered, and a caller waits for it. Shortly before
  the caller's 30 seconds are over a worker is registered and a second task is enqueued; the
  pass of that call gives the first task to the worker. The timer of the waiter fires, and
  the processing timer of the task after it.
\<close>

definition slow_start :: System where
  "slow_start = foldl step initial
     [Enqueue ''t1'' req ''key-1'' 0 0,
      WaitForCompletion ''t1'',
      CreateWorker ''w1'' ''worker-1'' (1 / 2) 0 0 29000,
      Enqueue ''t2'' req ''key-1'' 0 29500]"

definition slow_timed_out :: System where
  "slow_timed_out = step slow_start (WaiterTimerFires ''t1'' 0)"

definition slow_done :: System where
  "slow_done = step slow_timed_out (ProcessingTimerFires ''t1'' ''w1'' 31000)"

text \<open>
  A task is enqueued while no worker is registered, and two callers wait for it, one after
  the other. The task is still pending when the timer of the first caller fires, and when
  the timer of the second caller fires after it.
\<close>

definition two_waiters :: System where
  "two_waiters = foldl step initial
     [Enqueue ''t1'' req ''key-1'' 0 0,
      WaitForCompletion ''t1'',
      WaitForCompletion ''t1'']"

definition first_timed_out :: System where
  "first_timed_out = step two_waiters (WaiterTimerFires ''t1'' 0)"

definition both_timed_out :: System where
  "both_timed_out = step first_timed_out (WaiterTimerFires ''t1'' 1)"

section \<open>Lemmas\<close>

subsection \<open>Maps\<close>

lemma Map_get_set: "Map_get (Map_set k v m) k' = (if k' = k then Some v else Map_get m k')"
  by (induction m) (auto simp: Map_get_def)

lemma Map_get_delete: "Map_get (Map_delete k m) k' = (if k' = k then None else Map_get m k')"
  by (induction m) (auto simp: Map_get_def Map_delete_def)

lemma Map_delete_absent: "Map_get m k = None \<Longrightarrow> Map_delete k m = m"
  by (induction m) (auto simp: Map_get_def Map_delete_def split: if_splits)

lemma Map_has_get: "Map_has m k = (Map_get m k \<noteq> None)"
  by (simp add: Map_has_def Map_get_def)

lemma Map_get_in: "Map_get m k = Some v \<Longrightarrow> (k, v) \<in> set m"
  by (simp add: Map_get_def map_of_SomeD)

lemma Map_get_None_iff: "Map_get m k = None \<longleftrightarrow> k \<notin> fst ` set m"
  by (simp add: Map_get_def map_of_eq_None_iff)

lemma in_Map_set: "e \<in> set (Map_set k v m) \<Longrightarrow> e = (k, v) \<or> e \<in> set m"
  by (induction m) (auto split: if_splits)

lemma in_Map_delete: "e \<in> set (Map_delete k m) \<longleftrightarrow> e \<in> set m \<and> fst e \<noteq> k"
  by (auto simp: Map_delete_def)

lemma keys_Map_set:
  "map fst (Map_set k v m) = (if k \<in> set (map fst m) then map fst m else map fst m @ [k])"
  by (induction m) force+

lemma distinct_Map_set: "distinct (map fst m) \<Longrightarrow> distinct (map fst (Map_set k v m))"
  by (auto simp: keys_Map_set)

lemma distinct_Map_delete: "distinct (map fst m) \<Longrightarrow> distinct (map fst (Map_delete k m))"
  by (simp add: Map_delete_def distinct_map_filter)

lemma Map_get_distinct: "distinct (map fst m) \<Longrightarrow> (k, v) \<in> set m \<Longrightarrow> Map_get m k = Some v"
  by (simp add: Map_get_def)

lemma map_Map_set_same:
  "Map_get m k = Some w \<Longrightarrow> g (k, v) = g (k, w) \<Longrightarrow> map g (Map_set k v m) = map g m"
  by (induction m) (auto simp: Map_get_def split: if_splits)

subsection \<open>Sorting\<close>

lemma set_sort_insert: "set (sort_insert cmp x xs) = insert x (set xs)"
  by (induction xs) auto

lemma set_Array_sort: "set (Array_sort cmp xs) = set xs"
  by (induction xs) (auto simp: Array_sort_def set_sort_insert)

lemma length_sort_insert: "length (sort_insert cmp x xs) = Suc (length xs)"
  by (induction xs) auto

lemma length_Array_sort: "length (Array_sort cmp xs) = length xs"
  by (induction xs) (auto simp: Array_sort_def length_sort_insert)

subsection \<open>Store\<close>

lemma workers_updateTask: "workers (updateTask i f st) = workers st"
  by (simp add: updateTask_def split: option.splits)

lemma tasks_updateWorker: "tasks (updateWorker i f st) = tasks st"
  by (simp add: updateWorker_def split: option.splits)

lemma getTask_updateTask:
  "getTask (updateTask i f st) j = (if j = i then map_option f (getTask st i) else getTask st j)"
  by (simp add: updateTask_def getTask_def Map_get_set split: option.splits)

lemma getWorker_updateWorker:
  "getWorker (updateWorker i f st) j = (if j = i then map_option f (getWorker st i) else getWorker st j)"
  by (simp add: updateWorker_def getWorker_def Map_get_set split: option.splits)

lemma getWorker_updateTask: "getWorker (updateTask i f st) j = getWorker st j"
  by (simp add: getWorker_def workers_updateTask)

lemma getTask_updateWorker: "getTask (updateWorker i f st) j = getTask st j"
  by (simp add: getTask_def tasks_updateWorker)

lemma in_workers_updateWorker:
  "e \<in> set (workers (updateWorker i f st)) \<Longrightarrow>
     e \<in> set (workers st) \<or> (\<exists>w. Map_get (workers st) i = Some w \<and> e = (i, f w))"
  by (auto simp: updateWorker_def split: option.splits dest: in_Map_set)

lemma in_tasks_updateTask:
  "e \<in> set (tasks (updateTask i f st)) \<Longrightarrow>
     e \<in> set (tasks st) \<or> (\<exists>t. Map_get (tasks st) i = Some t \<and> e = (i, f t))"
  by (auto simp: updateTask_def split: option.splits dest: in_Map_set)

lemma registry_wf_updateWorker:
  "registry_wf st \<Longrightarrow> (\<And>w. worker_id (f w) = worker_id w) \<Longrightarrow> registry_wf (updateWorker i f st)"
  unfolding registry_wf_def
  by (auto simp: distinct_Map_set updateWorker_def split: option.splits dest!: in_Map_set Map_get_in)

lemma registry_wf_updateTask: "registry_wf (updateTask i f st) = registry_wf st"
  by (simp add: registry_wf_def workers_updateTask)

lemma workers_all_updateWorker:
  assumes "\<forall>e \<in> set (workers st). P (snd e)"
    and "\<And>w. Map_get (workers st) i = Some w \<Longrightarrow> P w \<Longrightarrow> P (f w)"
  shows "\<forall>e \<in> set (workers (updateWorker i f st)). P (snd e)"
proof
  fix e assume "e \<in> set (workers (updateWorker i f st))"
  then consider "e \<in> set (workers st)" | w where "Map_get (workers st) i = Some w" "e = (i, f w)"
    using in_workers_updateWorker by blast
  then show "P (snd e)"
  proof cases
    case 1 with assms(1) show ?thesis by blast
  next
    case 2
    from 2(1) have "(i, w) \<in> set (workers st)" by (rule Map_get_in)
    with assms(1) have "P w" by fastforce
    with assms(2) 2 show ?thesis by simp
  qed
qed

lemma tasks_all_updateTask:
  assumes "\<forall>e \<in> set (tasks st). P (snd e)"
    and "\<And>t. P t \<Longrightarrow> P (f t)"
  shows "\<forall>e \<in> set (tasks (updateTask i f st)). P (snd e)"
proof
  fix e assume "e \<in> set (tasks (updateTask i f st))"
  then consider "e \<in> set (tasks st)" | t where "Map_get (tasks st) i = Some t" "e = (i, f t)"
    using in_tasks_updateTask by blast
  then show "P (snd e)"
  proof cases
    case 1 with assms(1) show ?thesis by blast
  next
    case 2
    from 2(1) have "(i, t) \<in> set (tasks st)" by (rule Map_get_in)
    with assms(1) have "P t" by fastforce
    with assms(2) 2 show ?thesis by simp
  qed
qed

subsection \<open>The dispatcher and the registry\<close>

lemma workers_assignTaskToWorker:
  "workers (store (assignTaskToWorker task worker now s)) =
     workers (updateWorker (worker_id worker) (\<lambda>w. w\<lparr>currentLoad := currentLoad worker + 1\<rparr>) (store s))"
  by (simp add: assignTaskToWorker_def simulateTaskProcessing_def console_log_def Let_def
      workers_updateTask updateWorker_def Map_get_def split: option.splits)

lemma selectBestWorker_in: "selectBestWorker ws task = Some w \<Longrightarrow> w \<in> set ws"
proof -
  assume a: "selectBestWorker ws task = Some w"
  then obtain rest where "sortByLoadRatio ws = w # rest"
    by (auto simp: selectBestWorker_def split: if_splits list.splits)
  then have "w \<in> set (sortByLoadRatio ws)" by simp
  then show ?thesis by (simp add: sortByLoadRatio_def set_Array_sort)
qed

lemma set_spliceWorker: "set (spliceWorker i ws) \<subseteq> set ws"
  by (induction ws) auto

lemma pool_subset:
  "set (spliceWorker i (sortByLoadRatio ws)) \<subseteq> set ws"
  using set_spliceWorker[of i "sortByLoadRatio ws"] by (simp add: sortByLoadRatio_def set_Array_sort)

lemma assign_load_ok:
  assumes inv: "\<forall>e \<in> set (workers (store s)). load_ok (snd e)"
    and pool: "pool_ok (store s) ws" and w: "worker \<in> set ws"
  shows "(\<forall>e \<in> set (workers (store (assignTaskToWorker task worker now s))). load_ok (snd e))
       \<and> pool_ok (store (assignTaskToWorker task worker now s)) ws"
proof
  let ?f = "\<lambda>w. w\<lparr>currentLoad := currentLoad worker + 1\<rparr>"
  have wk: "0 \<le> currentLoad worker" "currentLoad worker < maxCapacity worker"
    "\<And>w'. getWorker (store s) (worker_id worker) = Some w' \<Longrightarrow> maxCapacity w' = maxCapacity worker"
    using pool w by (auto simp: pool_ok_def)
  have "\<forall>e \<in> set (workers (updateWorker (worker_id worker) ?f (store s))). load_ok (snd e)"
  proof (rule workers_all_updateWorker[OF inv])
    fix w' assume "Map_get (workers (store s)) (worker_id worker) = Some w'"
    then have "maxCapacity w' = maxCapacity worker" using wk(3) by (simp add: getWorker_def)
    then show "load_ok (?f w')" using wk(1,2) by (simp add: load_ok_def)
  qed
  then show "\<forall>e \<in> set (workers (store (assignTaskToWorker task worker now s))). load_ok (snd e)"
    by (simp add: workers_assignTaskToWorker)
  have gw: "\<And>j. getWorker (store (assignTaskToWorker task worker now s)) j
      = getWorker (updateWorker (worker_id worker) ?f (store s)) j"
    by (simp add: getWorker_def workers_assignTaskToWorker)
  show "pool_ok (store (assignTaskToWorker task worker now s)) ws"
    using pool unfolding pool_ok_def gw getWorker_updateWorker
    by (auto split: if_splits)
qed

lemma processLoop_load_ok:
  "\<forall>e \<in> set (workers (store s)). load_ok (snd e) \<Longrightarrow> pool_ok (store s) ws \<Longrightarrow>
     \<forall>e \<in> set (workers (store (processLoop pend ws now s))). load_ok (snd e)"
proof (induction pend arbitrary: ws s)
  case Nil
  then show ?case by simp
next
  case (Cons task rest)
  show ?case
  proof (cases "selectBestWorker ws task")
    case None
    have "pool_ok (store s) (sortByLoadRatio ws)"
      using Cons.prems(2) by (simp add: pool_ok_def sortByLoadRatio_def set_Array_sort)
    with Cons None show ?thesis by simp
  next
    case (Some worker)
    then have win: "worker \<in> set ws" by (rule selectBestWorker_in)
    let ?s' = "assignTaskToWorker task worker now s"
    from assign_load_ok[OF Cons.prems(1,2) win]
    have a: "\<forall>e \<in> set (workers (store ?s')). load_ok (snd e)" and b: "pool_ok (store ?s') ws"
      by blast+
    have "pool_ok (store ?s') (spliceWorker (worker_id worker) (sortByLoadRatio ws))"
      using b pool_subset[of "worker_id worker" ws] unfolding pool_ok_def by blast
    with Cons.IH[OF a] Some Cons.prems show ?thesis by simp
  qed
qed

subsection \<open>Loads stay within capacity\<close>

lemma store_settle: "store (settle p x s) = store s" by (simp add: settle_def)
lemma store_console_log: "store (console_log l s) = store s" by (simp add: console_log_def)
lemma store_resolveTask: "store (resolveTask i r s) = store s"
  by (simp add: resolveTask_def settle_def split: option.splits)
lemma store_rejectTask: "store (rejectTask i r s) = store s"
  by (simp add: rejectTask_def settle_def split: option.splits)
lemma store_waitForCompletion: "store (waitForCompletion i s) = store s"
  by (simp add: waitForCompletion_def settle_def Let_def split: option.splits)
lemma store_waiterTimeout: "store (waiterTimeout i p s) = store s"
  by (simp add: waiterTimeout_def settle_def)

lemma registry_wf_cong: "workers st = workers st' \<Longrightarrow> registry_wf st = registry_wf st'"
  by (simp add: registry_wf_def)

lemma pool_ok_available:
  assumes "registry_wf st" and "\<forall>e \<in> set (workers st). load_ok (snd e)"
  shows "pool_ok st (getAvailableWorkers st)"
  unfolding pool_ok_def
proof (intro ballI conjI allI impI)
  fix w assume w: "w \<in> set (getAvailableWorkers st)"
  then obtain k where k: "(k, w) \<in> set (workers st)" and lt: "currentLoad w < maxCapacity w"
    by (auto simp: getAvailableWorkers_def getOnlineWorkers_def getAllWorkers_def Map_values_def)
  from k assms(2) show "0 \<le> currentLoad w" by (fastforce simp: load_ok_def)
  from lt show "currentLoad w < maxCapacity w" .
  fix w' assume g: "getWorker st (worker_id w) = Some w'"
  from k assms(1) have "worker_id w = k" by (fastforce simp: registry_wf_def)
  with k assms(1) have "Map_get (workers st) (worker_id w) = Some w"
    by (simp add: registry_wf_def Map_get_distinct)
  with g show "maxCapacity w' = maxCapacity w" by (simp add: getWorker_def)
qed

lemma registry_wf_assign:
  "registry_wf (store s) \<Longrightarrow> registry_wf (store (assignTaskToWorker task worker now s))"
proof -
  assume a: "registry_wf (store s)"
  have "registry_wf (updateWorker (worker_id worker) (\<lambda>w. w\<lparr>currentLoad := currentLoad worker + 1\<rparr>) (store s))"
    by (rule registry_wf_updateWorker[OF a]) simp
  then show ?thesis
    using registry_wf_cong[OF workers_assignTaskToWorker] by blast
qed

lemma processLoop_registry_wf:
  "registry_wf (store s) \<Longrightarrow> registry_wf (store (processLoop pend ws now s))"
  by (induction pend arbitrary: ws s) (auto simp: registry_wf_assign split: option.splits)

lemma processQueue_load_ok:
  assumes "registry_wf (store s)" and "\<forall>e \<in> set (workers (store s)). load_ok (snd e)"
  shows "registry_wf (store (processQueue now s))
       \<and> (\<forall>e \<in> set (workers (store (processQueue now s))). load_ok (snd e))"
proof (cases "processing s")
  case True
  with assms show ?thesis by (simp add: processQueue_def)
next
  case False
  let ?s1 = "s\<lparr>processing := True\<rparr>"
  have st: "store ?s1 = store s" by simp
  have "pool_ok (store ?s1) (getAvailableWorkers (store ?s1))"
    using pool_ok_available[OF assms] by simp
  from processLoop_load_ok[OF _ this, where now = now and pend = "getPendingTasks (store ?s1)"] assms(2)
  have "\<forall>e \<in> set (workers (store (processLoop (getPendingTasks (store ?s1)) (getAvailableWorkers (store ?s1)) now ?s1))). load_ok (snd e)"
    by simp
  moreover have "registry_wf (store (processLoop (getPendingTasks (store ?s1)) (getAvailableWorkers (store ?s1)) now ?s1))"
    by (rule processLoop_registry_wf) (simp add: assms(1))
  ultimately show ?thesis using False by (simp add: processQueue_def Let_def)
qed

lemma workers_addTask: "workers (addTask t st) = workers st"
  by (simp add: addTask_def)

lemma enqueue_load_ok:
  assumes "registry_wf (store s)" and "\<forall>e \<in> set (workers (store s)). load_ok (snd e)"
  shows "registry_wf (store (enqueue uuid pl k prio now s))
       \<and> (\<forall>e \<in> set (workers (store (enqueue uuid pl k prio now s))). load_ok (snd e))"
  unfolding enqueue_def Let_def
  by (rule processQueue_load_ok)
     (use assms in \<open>simp_all add: console_log_def workers_addTask registry_wf_def\<close>)

lemma workers_processingDone:
  "workers (store (processingDone taskId workerId now s)) =
     workers (updateWorker workerId (\<lambda>w. w\<lparr>currentLoad := max 0 (currentLoad w - 1)\<rparr>) (store s))"
  by (simp add: processingDone_def Let_def store_console_log store_resolveTask workers_updateTask
      getWorker_def updateWorker_def split: option.splits)

lemma processingDone_load_ok:
  assumes "registry_wf (store s)" and "\<forall>e \<in> set (workers (store s)). load_ok (snd e)"
  shows "registry_wf (store (processingDone taskId workerId now s))
       \<and> (\<forall>e \<in> set (workers (store (processingDone taskId workerId now s))). load_ok (snd e))"
proof
  let ?f = "\<lambda>w. w\<lparr>currentLoad := max 0 (currentLoad w - 1)\<rparr>"
  have "registry_wf (updateWorker workerId ?f (store s))"
    by (rule registry_wf_updateWorker[OF assms(1)]) simp
  then show "registry_wf (store (processingDone taskId workerId now s))"
    using registry_wf_cong[OF workers_processingDone] by blast
  have "\<forall>e \<in> set (workers (updateWorker workerId ?f (store s))). load_ok (snd e)"
    by (rule workers_all_updateWorker[OF assms(2)]) (auto simp: load_ok_def)
  then show "\<forall>e \<in> set (workers (store (processingDone taskId workerId now s))). load_ok (snd e)"
    by (simp add: workers_processingDone)
qed

lemma gpu_index: "unit_draw r \<Longrightarrow> nat \<lfloor>r * of_nat (length GPU_MODELS)\<rfloor> < 4"
proof -
  assume "unit_draw r"
  then have "r < 1" by (simp add: unit_draw_def)
  then have "r * 4 < of_int 4" by simp
  then have "\<lfloor>r * 4\<rfloor> < 4" by (simp only: floor_less_iff)
  then have *: "nat \<lfloor>r * 4\<rfloor> < 4" by linarith
  have "length GPU_MODELS = 4" by (simp add: GPU_MODELS_def)
  then have "r * of_nat (length GPU_MODELS) = r * 4" by simp
  with * show ?thesis by (simp only:)
qed

lemma createWorker_capacity:
  assumes "unit_draw r1"
  shows "maxCapacity (fst (createWorker uuid host r1 r2 r3 now st)) \<in> {6, 7, 10, 15}"
proof -
  define i where "i = nat \<lfloor>r1 * of_nat (length GPU_MODELS)\<rfloor>"
  have "i < 4" unfolding i_def using assms by (rule gpu_index)
  then consider "i = 0" | "i = 1" | "i = 2" | "i = 3" by linarith
  then have "\<lfloor>(of_int (baseThroughput (GPU_MODELS ! i)) :: rat) / 10\<rfloor> \<in> {6, 7, 10, 15}"
    by cases (simp_all add: GPU_MODELS_def)
  then show ?thesis by (simp add: createWorker_def Let_def i_def)
qed

lemma createWorker_fields:
  "worker_id (fst (createWorker uuid host r1 r2 r3 now st)) = uuid"
  "currentLoad (fst (createWorker uuid host r1 r2 r3 now st)) = 0"
  "worker_status (fst (createWorker uuid host r1 r2 r3 now st)) = Online"
  "snd (createWorker uuid host r1 r2 r3 now st) = addWorker (fst (createWorker uuid host r1 r2 r3 now st)) st"
  by (simp_all add: createWorker_def Let_def)

lemma addWorker_all:
  "\<forall>e \<in> set (workers st). P (snd e) \<Longrightarrow> P w \<Longrightarrow> \<forall>e \<in> set (workers (addWorker w st)). P (snd e)"
  by (auto simp: addWorker_def dest!: in_Map_set)

lemma registry_wf_addWorker: "registry_wf st \<Longrightarrow> registry_wf (addWorker w st)"
  by (auto simp: registry_wf_def addWorker_def distinct_Map_set dest!: in_Map_set)

lemma registry_wf_removeWorker: "registry_wf st \<Longrightarrow> registry_wf (snd (removeWorker i st))"
  by (auto simp: registry_wf_def removeWorker_def distinct_Map_delete in_Map_delete)

lemma removeWorker_all:
  "\<forall>e \<in> set (workers st). P (snd e) \<Longrightarrow> \<forall>e \<in> set (workers (snd (removeWorker i st))). P (snd e)"
  by (auto simp: removeWorker_def in_Map_delete)

lemma heartbeatUpdates_fields:
  "currentLoad (heartbeatUpdates worker d now w) = currentLoad w"
  "maxCapacity (heartbeatUpdates worker d now w) = maxCapacity w"
  "worker_id (heartbeatUpdates worker d now w) = worker_id w"
  by (cases d; simp add: heartbeatUpdates_def Let_def)+

lemma heartbeatUpdates_status:
  "worker_status worker \<noteq> Busy \<Longrightarrow> worker_status (heartbeatUpdates worker d now w) \<noteq> Busy"
  by (cases d) (simp add: heartbeatUpdates_def Let_def)

lemma heartbeatLoop_all:
  assumes "\<forall>e \<in> set (workers st). P (snd e)"
    and "\<And>worker d w. worker \<in> set ws \<Longrightarrow> P w \<Longrightarrow> P (heartbeatUpdates worker d now w)"
  shows "\<forall>e \<in> set (workers (heartbeatLoop ws ds now st)). P (snd e)"
  using assms
proof (induction ws ds now st rule: heartbeatLoop.induct)
  case (1 worker ws d ds now st)
  have "\<forall>e \<in> set (workers (updateWorker (worker_id worker) (heartbeatUpdates worker d now) st)). P (snd e)"
    by (rule workers_all_updateWorker[OF "1.prems"(1)]) (simp add: "1.prems"(2))
  then show ?case using 1 by simp
qed simp_all

lemma heartbeatLoop_registry_wf:
  "registry_wf st \<Longrightarrow> registry_wf (heartbeatLoop ws ds now st)"
  by (induction ws ds now st rule: heartbeatLoop.induct)
     (simp_all add: registry_wf_updateWorker heartbeatUpdates_fields)

lemma load_invariant:
  "reachable s \<Longrightarrow> registry_wf (store s) \<and> (\<forall>e \<in> set (workers (store s)). load_ok (snd e))"
proof (induction rule: reachable.induct)
  case reachable_initial
  show ?case by (simp add: initial_def registry_wf_def)
next
  case (reachable_step s e)
  then have wf: "registry_wf (store s)" and ok: "\<forall>e \<in> set (workers (store s)). load_ok (snd e)"
    by blast+
  show ?case
  proof (cases e)
    case (Enqueue uuid pl k prio now)
    then show ?thesis using enqueue_load_ok[OF wf ok] by simp
  next
    case (EnqueueInPass uuid pl k prio now)
    have "registry_wf (store (s\<lparr>processing := True\<rparr>))"
      "\<forall>e \<in> set (workers (store (s\<lparr>processing := True\<rparr>))). load_ok (snd e)"
      using wf ok by simp_all
    from enqueue_load_ok[OF this] EnqueueInPass show ?thesis by simp
  next
    case (ProcessingTimerFires taskId workerId now)
    let ?s = "s\<lparr>processingTimers := remove1 (taskId, workerId) (processingTimers s)\<rparr>"
    have "registry_wf (store ?s)" "\<forall>e \<in> set (workers (store ?s)). load_ok (snd e)"
      using wf ok by simp_all
    from processingDone_load_ok[OF this] ProcessingTimerFires show ?thesis by simp
  next
    case (CreateWorker uuid host r1 r2 r3 now)
    with reachable_step.hyps(2) have "unit_draw r1" by simp
    from createWorker_capacity[OF this, of uuid host r2 r3 now "store s"]
    have "load_ok (fst (createWorker uuid host r1 r2 r3 now (store s)))"
      by (auto simp: load_ok_def createWorker_fields)
    with ok wf CreateWorker show ?thesis
      by (simp add: createWorker_fields(4) addWorker_all registry_wf_addWorker)
  next
    case (RemoveWorker workerId)
    with ok wf show ?thesis by (simp add: removeWorker_all registry_wf_removeWorker)
  next
    case (HeartbeatTick draws now)
    have "\<forall>e \<in> set (workers (heartbeatLoop (getAllWorkers (store s)) draws now (store s))). load_ok (snd e)"
      by (rule heartbeatLoop_all[OF ok]) (simp add: load_ok_def heartbeatUpdates_fields)
    with wf HeartbeatTick show ?thesis by (simp add: heartbeat_def heartbeatLoop_registry_wf)
  qed (use wf ok in \<open>simp_all add: store_waitForCompletion store_waiterTimeout store_resolveTask store_rejectTask\<close>)
qed

subsection \<open>Evaluating the concrete runs\<close>

lemmas model_defs = initial_def createWorker_def addWorker_def GPU_MODELS_def Let_def
     enqueue_def addTask_def console_log_def processQueue_def getPendingTasks_def getAvailableWorkers_def
     getOnlineWorkers_def getAllWorkers_def Map_values_def Array_sort_def selectBestWorker_def sortByLoadRatio_def
     assignTaskToWorker_def simulateTaskProcessing_def updateTask_def updateWorker_def Map_get_def loadRatio_def
     getTask_def getWorker_def waitForCompletion_def settle_def resolveTask_def rejectTask_def processingDone_def
     Map_has_def Map_delete_def waiterTimeout_def removeWorker_def unit_draw_def heartbeat_def heartbeatUpdates_def
     Math_round_def

lemma reachable_one_worker: "reachable one_worker"
  unfolding one_worker_def
  by (rule reachable_step[OF reachable_initial]) (simp add: model_defs)

lemma reachable_one_task: "reachable one_task"
  unfolding one_task_def
  by (rule reachable_step[OF reachable_one_worker]) (simp add: one_worker_def model_defs)

lemma reachable_one_waiter: "reachable one_waiter"
  unfolding one_waiter_def
  by (rule reachable_step[OF reachable_one_task]) simp

lemma getWorker_available:
  assumes "registry_wf st" and "w \<in> set (getAvailableWorkers st)"
  shows "getWorker st (worker_id w) = Some w"
proof -
  from assms(2) obtain k where k: "(k, w) \<in> set (workers st)"
    by (auto simp: getAvailableWorkers_def getOnlineWorkers_def getAllWorkers_def Map_values_def)
  with assms(1) have "worker_id w = k" by (fastforce simp: registry_wf_def)
  with k assms(1) show ?thesis by (simp add: registry_wf_def Map_get_distinct getWorker_def)
qed

subsection \<open>The dispatcher writes loads only\<close>

lemma except_load_updateWorker:
  assumes "\<And>w. (f w)\<lparr>currentLoad := 0\<rparr> = w\<lparr>currentLoad := 0\<rparr>"
  shows "except_load (updateWorker i f st) = except_load st"
proof (cases "Map_get (workers st) i")
  case None
  then show ?thesis by (simp add: updateWorker_def)
next
  case (Some w)
  have "map (\<lambda>e. (snd e)\<lparr>currentLoad := 0\<rparr>) (Map_set i (f w) (workers st))
      = map (\<lambda>e. (snd e)\<lparr>currentLoad := 0\<rparr>) (workers st)"
    by (rule map_Map_set_same[OF Some]) (simp add: assms)
  then show ?thesis
    by (simp add: Some updateWorker_def except_load_def getAllWorkers_def Map_values_def comp_def)
qed

lemma except_load_cong: "workers st = workers st' \<Longrightarrow> except_load st = except_load st'"
  by (simp add: except_load_def getAllWorkers_def)

lemma except_load_assign:
  "except_load (store (assignTaskToWorker task worker now s)) = except_load (store s)"
  using except_load_cong[OF workers_assignTaskToWorker]
  by (simp add: except_load_updateWorker)

lemma except_load_processLoop:
  "except_load (store (processLoop pend ws now s)) = except_load (store s)"
  by (induction pend arbitrary: ws s) (auto simp: except_load_assign split: option.splits)

lemma except_load_processQueue:
  "except_load (store (processQueue now s)) = except_load (store s)"
  by (simp add: processQueue_def Let_def except_load_processLoop)

lemma except_load_enqueue:
  "except_load (store (enqueue uuid pl keyId prio now s)) = except_load (store s)"
  by (simp add: enqueue_def Let_def except_load_processQueue console_log_def
      except_load_cong[OF workers_addTask])

lemma except_load_processingDone:
  "except_load (store (processingDone taskId workerId now s)) = except_load (store s)"
  using except_load_cong[OF workers_processingDone]
  by (simp add: except_load_updateWorker)

lemma status_except_load:
  "map worker_status (getAllWorkers st) = map worker_status (except_load st)"
  by (simp add: except_load_def comp_def)

lemma status_set_cong:
  "except_load st' = except_load st \<Longrightarrow>
     \<forall>w \<in> set (getAllWorkers st). worker_status w \<noteq> Busy \<Longrightarrow>
     \<forall>w \<in> set (getAllWorkers st'). worker_status w \<noteq> Busy"
proof -
  assume a: "except_load st' = except_load st" and b: "\<forall>w \<in> set (getAllWorkers st). worker_status w \<noteq> Busy"
  have "set (map worker_status (getAllWorkers st')) = set (map worker_status (getAllWorkers st))"
    by (simp only: status_except_load a)
  with b show ?thesis by (metis (no_types, lifting) image_iff list.set_map)
qed

lemma all_workers_iff:
  "(\<forall>w \<in> set (getAllWorkers st). P w) \<longleftrightarrow> (\<forall>e \<in> set (workers st). P (snd e))"
  by (auto simp: getAllWorkers_def Map_values_def)

lemma status_invariant:
  "reachable s \<Longrightarrow> \<forall>w \<in> set (getAllWorkers (store s)). worker_status w \<noteq> Busy"
proof (induction rule: reachable.induct)
  case reachable_initial
  show ?case by (simp add: initial_def getAllWorkers_def Map_values_def)
next
  case (reachable_step s e)
  note ih = reachable_step.IH
  show ?case
  proof (cases e)
    case (Enqueue uuid pl k prio now)
    then show ?thesis using status_set_cong[OF except_load_enqueue ih] by simp
  next
    case (EnqueueInPass uuid pl k prio now)
    have "\<forall>w \<in> set (getAllWorkers (store (s\<lparr>processing := True\<rparr>))). worker_status w \<noteq> Busy"
      using ih by simp
    from status_set_cong[OF except_load_enqueue this] EnqueueInPass show ?thesis by simp
  next
    case (ProcessingTimerFires taskId workerId now)
    let ?s = "s\<lparr>processingTimers := remove1 (taskId, workerId) (processingTimers s)\<rparr>"
    have "\<forall>w \<in> set (getAllWorkers (store ?s)). worker_status w \<noteq> Busy" using ih by simp
    from status_set_cong[OF except_load_processingDone this] ProcessingTimerFires
    show ?thesis by simp
  next
    case (CreateWorker uuid host r1 r2 r3 now)
    from ih have "\<forall>e \<in> set (workers (store s)). worker_status (snd e) \<noteq> Busy"
      by (simp add: all_workers_iff)
    then have "\<forall>e \<in> set (workers (addWorker (fst (createWorker uuid host r1 r2 r3 now (store s))) (store s))).
        worker_status (snd e) \<noteq> Busy"
      by (rule addWorker_all) (simp add: createWorker_fields)
    with CreateWorker show ?thesis by (simp add: all_workers_iff createWorker_fields(4))
  next
    case (RemoveWorker workerId)
    from ih have "\<forall>e \<in> set (workers (store s)). worker_status (snd e) \<noteq> Busy"
      by (simp add: all_workers_iff)
    then have "\<forall>e \<in> set (workers (snd (removeWorker workerId (store s)))). worker_status (snd e) \<noteq> Busy"
      by (rule removeWorker_all)
    with RemoveWorker show ?thesis by (simp add: all_workers_iff)
  next
    case (HeartbeatTick draws now)
    from ih have a: "\<forall>e \<in> set (workers (store s)). worker_status (snd e) \<noteq> Busy"
      by (simp add: all_workers_iff)
    have "\<forall>e \<in> set (workers (heartbeatLoop (getAllWorkers (store s)) draws now (store s))).
        worker_status (snd e) \<noteq> Busy"
      by (rule heartbeatLoop_all[OF a]) (use ih in \<open>simp add: heartbeatUpdates_status\<close>)
    with HeartbeatTick show ?thesis by (simp add: all_workers_iff heartbeat_def)
  qed (use ih in \<open>simp_all add: store_waitForCompletion store_waiterTimeout store_resolveTask store_rejectTask\<close>)
qed

lemma reachable_one_offline: "reachable one_offline"
  unfolding one_offline_def
  by (rule reachable_step[OF reachable_one_task]) (simp add: one_task_def one_worker_def model_defs req_def)

subsection \<open>No operation writes an outcome\<close>

lemma updateTask_tasks_cong:
  "tasks st = tasks st' \<Longrightarrow> tasks (updateTask i f st) = tasks (updateTask i f st')"
  by (simp add: updateTask_def split: option.splits)

lemma tasks_assignTaskToWorker:
  "tasks (store (assignTaskToWorker task worker now s)) =
     tasks (updateTask (task_id task) (\<lambda>t. t\<lparr>task_status := Processing, startedAt := Some now\<rparr>)
             (updateTask (task_id task)
                (\<lambda>t. t\<lparr>task_status := Assigned, assignedWorker := Some (worker_id worker)\<rparr>) (store s)))"
  by (simp add: assignTaskToWorker_def simulateTaskProcessing_def console_log_def Let_def
      updateTask_tasks_cong[OF tasks_updateWorker])

lemma tasks_processingDone:
  "tasks (store (processingDone taskId workerId now s)) =
     tasks (updateTask taskId (\<lambda>t. t\<lparr>task_status := Completed, completedAt := Some now\<rparr>) (store s))"
  by (simp add: processingDone_def Let_def store_console_log store_resolveTask tasks_updateWorker
      split: option.splits)

lemma tasks_heartbeatLoop: "tasks (heartbeatLoop ws ds now st) = tasks st"
  by (induction ws ds now st rule: heartbeatLoop.induct) (simp_all add: tasks_updateWorker)

lemma tasks_createWorker: "tasks (snd (createWorker uuid host r1 r2 r3 now st)) = tasks st"
  by (simp add: createWorker_def Let_def addWorker_def)

lemma tasks_removeWorker: "tasks (snd (removeWorker i st)) = tasks st"
  by (simp add: removeWorker_def)

lemma assign_outcome_unset:
  assumes "\<forall>e \<in> set (tasks (store s)). outcome_unset (snd e)"
  shows "\<forall>e \<in> set (tasks (store (assignTaskToWorker task worker now s))). outcome_unset (snd e)"
  unfolding tasks_assignTaskToWorker
  by (intro tasks_all_updateTask assms) (simp_all add: outcome_unset_def)

lemma processLoop_outcome_unset:
  "\<forall>e \<in> set (tasks (store s)). outcome_unset (snd e) \<Longrightarrow>
     \<forall>e \<in> set (tasks (store (processLoop pend ws now s))). outcome_unset (snd e)"
proof (induction pend arbitrary: ws s)
  case Nil
  then show ?case by simp
next
  case (Cons task rest)
  show ?case
  proof (cases "selectBestWorker ws task")
    case None
    with Cons show ?thesis by simp
  next
    case (Some worker)
    from Cons.IH[OF assign_outcome_unset[OF Cons.prems]] Some Cons.prems show ?thesis by simp
  qed
qed

lemma processQueue_outcome_unset:
  assumes "\<forall>e \<in> set (tasks (store s)). outcome_unset (snd e)"
  shows "\<forall>e \<in> set (tasks (store (processQueue now s))). outcome_unset (snd e)"
proof (cases "processing s")
  case True
  with assms show ?thesis by (simp add: processQueue_def)
next
  case False
  let ?s1 = "s\<lparr>processing := True\<rparr>"
  have "\<forall>e \<in> set (tasks (store (processLoop (getPendingTasks (store ?s1))
      (getAvailableWorkers (store ?s1)) now ?s1))). outcome_unset (snd e)"
    by (rule processLoop_outcome_unset) (simp add: assms)
  with False show ?thesis by (simp add: processQueue_def Let_def)
qed

lemma enqueue_outcome_unset:
  assumes "\<forall>e \<in> set (tasks (store s)). outcome_unset (snd e)"
  shows "\<forall>e \<in> set (tasks (store (enqueue uuid pl keyId prio now s))). outcome_unset (snd e)"
  unfolding enqueue_def Let_def
proof (rule processQueue_outcome_unset)
  show "\<forall>e \<in> set (tasks (store (console_log (TaskAdded uuid)
      (s\<lparr>store := addTask \<lparr>task_id = uuid, task_type = chat_completion, payload = pl,
          apiKeyId = keyId, priority = prio, task_status = Pending, assignedWorker = None,
          result = None, error = None, createdAt = now, startedAt = None, completedAt = None\<rparr>
          (store s), issued := uuid # issued s\<rparr>)))). outcome_unset (snd e)"
    using assms by (auto simp: console_log_def addTask_def outcome_unset_def dest!: in_Map_set)
qed

lemma outcome_invariant:
  "reachable s \<Longrightarrow> \<forall>e \<in> set (tasks (store s)). outcome_unset (snd e)"
proof (induction rule: reachable.induct)
  case reachable_initial
  show ?case by (simp add: initial_def)
next
  case (reachable_step s e)
  note ih = reachable_step.IH
  show ?case
  proof (cases e)
    case (Enqueue uuid pl k prio now)
    then show ?thesis using enqueue_outcome_unset[OF ih] by simp
  next
    case (EnqueueInPass uuid pl k prio now)
    have "\<forall>e \<in> set (tasks (store (s\<lparr>processing := True\<rparr>))). outcome_unset (snd e)"
      using ih by simp
    from enqueue_outcome_unset[OF this] EnqueueInPass show ?thesis by simp
  next
    case (ProcessingTimerFires taskId workerId now)
    have "\<forall>e \<in> set (tasks (updateTask taskId (\<lambda>t. t\<lparr>task_status := Completed, completedAt := Some now\<rparr>)
        (store s))). outcome_unset (snd e)"
      by (intro tasks_all_updateTask ih) (simp add: outcome_unset_def)
    then show ?thesis using ProcessingTimerFires
      by (simp add: tasks_processingDone updateTask_tasks_cong[of "store (s\<lparr>processingTimers := remove1 (taskId, workerId) (processingTimers s)\<rparr>)" "store s"])
  qed (use ih in \<open>simp_all add: store_waitForCompletion store_waiterTimeout store_resolveTask
         store_rejectTask tasks_createWorker tasks_removeWorker heartbeat_def tasks_heartbeatLoop\<close>)
qed

lemma reachable_one_done: "reachable one_done"
  unfolding one_done_def
  by (rule reachable_step[OF reachable_one_task]) (simp add: one_task_def one_worker_def model_defs req_def)

lemma reachable_lost_worker: "reachable lost_worker"
  unfolding lost_worker_def
  by (rule reachable_step[OF reachable_one_waiter]) simp

lemma reachable_lost_worker_done: "reachable lost_worker_done"
  unfolding lost_worker_done_def
  by (rule reachable_step[OF reachable_lost_worker])
     (simp add: lost_worker_def one_waiter_def one_task_def one_worker_def model_defs req_def)

lemma reachable_upstream_failed: "reachable upstream_failed"
  unfolding upstream_failed_def
  by (rule reachable_step[OF reachable_one_waiter]) simp

lemmas run_defs = one_waiter_def one_task_def one_worker_def model_defs req_def

lemma assignedIds_append: "assignedIds (xs @ ys) = assignedIds xs @ assignedIds ys"
  by (induction xs rule: assignedIds.induct) simp_all

lemmas slot_defs = third_enqueued_def first_done_def two_enqueued_def single_slot_def model_defs req_def

subsection \<open>The order of a scheduling pass\<close>

lemma reachable_foldl: "reachable s \<Longrightarrow> enabled_all s es \<Longrightarrow> reachable (foldl step s es)"
  by (induction es arbitrary: s) (auto intro: reachable_step)

lemma sort_insert_insort:
  fixes k :: "'a \<Rightarrow> 'n::linordered_idom"
  shows "sort_insert (\<lambda>a b. k a - k b) x ys = insort_key k x ys"
  by (induction ys) simp_all

lemma Array_sort_sort_key:
  fixes k :: "'a \<Rightarrow> 'n::linordered_idom"
  shows "Array_sort (\<lambda>a b. k a - k b) xs = sort_key k xs"
proof -
  have "sort_insert (\<lambda>a b. k a - k b) = insort_key k"
    by (intro ext) (rule sort_insert_insort)
  then show ?thesis by (simp add: Array_sort_def sort_key_def)
qed

lemma getPendingTasks_sort_key:
  "getPendingTasks st =
     sort_key (\<lambda>t. - priority t) (filter (\<lambda>t. task_status t = Pending) (getAllTasks st))"
  using Array_sort_sort_key[of "\<lambda>t. - priority t"]
  by (simp add: getPendingTasks_def getAllTasks_def)

lemma select_nonempty:
  "ws \<noteq> [] \<Longrightarrow> \<exists>w. selectBestWorker ws task = Some w \<and> w \<in> set ws"
proof -
  assume "ws \<noteq> []"
  then have "sortByLoadRatio ws \<noteq> []"
    using length_Array_sort[of "\<lambda>a b. loadRatio a - loadRatio b" ws]
    by (auto simp: sortByLoadRatio_def)
  then obtain w rest where "sortByLoadRatio ws = w # rest" by (cases "sortByLoadRatio ws") auto
  with \<open>ws \<noteq> []\<close> have "selectBestWorker ws task = Some w" by (simp add: selectBestWorker_def)
  then show ?thesis using selectBestWorker_in by blast
qed

lemma length_spliceWorker:
  "\<exists>v \<in> set ws. worker_id v = i \<Longrightarrow> Suc (length (spliceWorker i ws)) = length ws"
  by (induction ws) auto

lemma console_assignTaskToWorker:
  "console (assignTaskToWorker task worker now s)
     = console s @ [TaskAssigned (task_id task) (worker_id worker)]"
  by (simp add: assignTaskToWorker_def simulateTaskProcessing_def console_log_def Let_def)

lemma processLoop_assigned:
  "assignedIds (console (processLoop pend ws now s))
     = assignedIds (console s) @ take (length ws) (map task_id pend)"
proof (induction pend arbitrary: ws s)
  case Nil
  show ?case by simp
next
  case (Cons task rest)
  show ?case
  proof (cases "ws = []")
    case True
    then show ?thesis by simp
  next
    case False
    then obtain w where w: "selectBestWorker ws task = Some w" "w \<in> set ws"
      using select_nonempty by blast
    have sel: "\<exists>v \<in> set (sortByLoadRatio ws). worker_id v = worker_id w"
      using w(2) by (auto simp: sortByLoadRatio_def set_Array_sort)
    define n where "n = length (spliceWorker (worker_id w) (sortByLoadRatio ws))"
    have "Suc n = length (sortByLoadRatio ws)"
      unfolding n_def using sel by (rule length_spliceWorker)
    then have len: "length ws = Suc n"
      by (simp add: sortByLoadRatio_def length_Array_sort)
    have "assignedIds (console (processLoop (task # rest) ws now s))
        = assignedIds (console (assignTaskToWorker task w now s)) @ take n (map task_id rest)"
      using False w(1) by (simp add: Cons.IH n_def)
    also have "\<dots> = assignedIds (console s) @ take (length ws) (map task_id (task # rest))"
      by (simp add: len console_assignTaskToWorker assignedIds_append)
    finally show ?thesis .
  qed
qed

subsection \<open>The worker a pass selects\<close>

lemma floor_half: "\<lfloor>1 / 2 :: rat\<rfloor> = 0"
  by (simp add: floor_eq_iff)

lemma sortByLoadRatio_sort_key: "sortByLoadRatio ws = sort_key loadRatio ws"
  by (simp add: sortByLoadRatio_def Array_sort_sort_key)

lemma sort_key_hd_first_least:
  fixes f :: "'a \<Rightarrow> 'b::linorder"
  shows "xs \<noteq> [] \<Longrightarrow>
    \<exists>pre post. xs = pre @ hd (sort_key f xs) # post
      \<and> (\<forall>v \<in> set pre. f (hd (sort_key f xs)) < f v)
      \<and> (\<forall>v \<in> set post. f (hd (sort_key f xs)) \<le> f v)"
proof (induction xs)
  case Nil
  then show ?case by simp
next
  case (Cons x xs)
  show ?case
  proof (cases "xs = []")
    case True
    then show ?thesis by (auto intro!: exI[of _ "[]"])
  next
    case False
    from False have "sort_key f xs \<noteq> []" by (metis length_sort length_0_conv)
    then obtain m r where sk: "sort_key f xs = m # r" by (cases "sort_key f xs") auto
    then have m: "hd (sort_key f xs) = m" by simp
    from Cons.IH[OF False] obtain pre post where
      xs: "xs = pre @ m # post" and pre: "\<forall>v \<in> set pre. f m < f v"
      and post: "\<forall>v \<in> set post. f m \<le> f v" unfolding m by blast
    have least: "\<forall>v \<in> set xs. f m \<le> f v"
    proof
      fix v assume "v \<in> set xs"
      then have "v \<in> set pre \<or> v = m \<or> v \<in> set post" by (subst (asm) xs) auto
      with pre post show "f m \<le> f v" by auto
    qed
    show ?thesis
    proof (cases "f x \<le> f m")
      case True
      then have h: "hd (sort_key f (x # xs)) = x" by (simp add: sk)
      have "\<forall>v \<in> set xs. f x \<le> f v" using True least by (meson order_trans)
      then show ?thesis unfolding h by (intro exI[of _ "[]"] exI[of _ xs]) simp
    next
      case False
      then have h: "hd (sort_key f (x # xs)) = m" by (simp add: sk)
      have "x # xs = (x # pre) @ m # post" using xs by simp
      moreover have "\<forall>v \<in> set (x # pre). f m < f v" using pre False by auto
      ultimately show ?thesis unfolding h using post by blast
    qed
  qed
qed

lemma selectBestWorker_hd:
  "ws \<noteq> [] \<Longrightarrow> selectBestWorker ws task = Some (hd (sort_key loadRatio ws))"
proof -
  assume a: "ws \<noteq> []"
  then have "sort_key loadRatio ws \<noteq> []" by (metis length_sort length_0_conv)
  then obtain w r where "sort_key loadRatio ws = w # r" by (cases "sort_key loadRatio ws") auto
  with a show ?thesis by (simp add: selectBestWorker_def sortByLoadRatio_sort_key)
qed

lemma three_eval:
  "map maxCapacity (getAllWorkers (store three_workers)) = [2, 4, 8]"
  "map loadRatio (getAllWorkers (store three_workers)) = [0, 0, 0]"
  "map worker_id (getAvailableWorkers (store three_workers)) = [''wA'', ''wB'', ''wC'']"
  "map_option assignedWorker
     (getTask (store (enqueue ''t1'' req ''key-1'' 0 1 three_workers)) ''t1'') = Some (Some ''wA'')"
  "map_option maxCapacity (getWorker (store three_workers) ''wA'') = Some 2"
  by (simp_all add: three_workers_def idle_worker_def model_defs)

lemma three_rev_eval:
  "map worker_id (getAllWorkers (store three_workers_rev)) = [''wC'', ''wB'', ''wA'']"
  "map loadRatio (getAllWorkers (store three_workers_rev)) = [0, 0, 0]"
  "map_option assignedWorker
     (getTask (store (enqueue ''t1'' req ''key-1'' 0 1 three_workers_rev)) ''t1'') = Some (Some ''wC'')"
  by (simp_all add: three_workers_rev_def idle_worker_def model_defs)

lemma reachable_staggered: "reachable staggered"
  unfolding staggered_def
  by (rule reachable_foldl[OF reachable_initial]) (simp add: model_defs)

lemma staggered_pass_eq:
  "staggered_pass =
     \<lparr>store = \<lparr>workers = [(''wB'', rtx_worker ''wB'' ''worker-1'' 2 100),
                           (''wA'', rtx_worker ''wA'' ''worker-2'' 0 400)],
                tasks = [(''t3'', queued_task ''t3'' 0 0),
                         (''t1'', running_task ''t1'' 5 ''wB'' 200),
                         (''t2'', running_task ''t2'' 5 ''wB'' 300),
                         (''t4'', queued_task ''t4'' 0 500)]\<rparr>,
       processing = True, taskCallbacks = [], nextPromise = 0, settled = [], waiterTimers = [],
       processingTimers = [(''t1'', ''wB''), (''t2'', ''wB'')],
       console = [TaskAdded ''t3'', TaskAdded ''t1'', TaskAssigned ''t1'' ''wB'', TaskAdded ''t2'',
                  TaskAssigned ''t2'' ''wB'', TaskAdded ''t4''],
       issued = [''t4'', ''wA'', ''t2'', ''t1'', ''wB'', ''t3'']\<rparr>"
  by (simp add: staggered_pass_def staggered_def model_defs rtx_worker_def running_task_def
      queued_task_def floor_half)

lemma staggered_mid_eq:
  "staggered_mid =
     \<lparr>store = \<lparr>workers = [(''wB'', rtx_worker ''wB'' ''worker-1'' 2 100),
                           (''wA'', rtx_worker ''wA'' ''worker-2'' 1 400)],
                tasks = [(''t3'', (running_task ''t3'' 0 ''wA'' 500)\<lparr>createdAt := 0\<rparr>),
                         (''t1'', running_task ''t1'' 5 ''wB'' 200),
                         (''t2'', running_task ''t2'' 5 ''wB'' 300),
                         (''t4'', queued_task ''t4'' 0 500)]\<rparr>,
       processing = True, taskCallbacks = [], nextPromise = 0, settled = [], waiterTimers = [],
       processingTimers = [(''t1'', ''wB''), (''t2'', ''wB''), (''t3'', ''wA'')],
       console = [TaskAdded ''t3'', TaskAdded ''t1'', TaskAssigned ''t1'' ''wB'', TaskAdded ''t2'',
                  TaskAssigned ''t2'' ''wB'', TaskAdded ''t4'', TaskAssigned ''t3'' ''wA''],
       issued = [''t4'', ''wA'', ''t2'', ''t1'', ''wB'', ''t3'']\<rparr>"
  by (simp add: staggered_mid_def staggered_pass_eq model_defs rtx_worker_def running_task_def
      queued_task_def)

lemma staggered_eval:
  "map worker_id (getAvailableWorkers (store staggered_mid)) = [''wB'', ''wA'']"
  "map loadRatio (getAvailableWorkers (store staggered_mid)) = [1 / 3, 1 / 6]"
  "map maxCapacity (getAvailableWorkers (store staggered_mid)) = [6, 6]"
  "map task_id (getPendingTasks (store staggered_mid)) = [''t4'']"
  "map_option assignedWorker (getTask (store staggered_mid) ''t3'') = Some (Some ''wA'')"
  "map_option assignedWorker (getTask (store staggered_done) ''t4'') = Some (Some ''wB'')"
  "store staggered_done
     = store (assignTaskToWorker (hd (getPendingTasks (store staggered_mid)))
               (hd (getAvailableWorkers (store staggered_mid))) 500 staggered_mid)"
  by (simp_all add: staggered_done_def staggered_def staggered_mid_eq model_defs rtx_worker_def
      running_task_def queued_task_def floor_half)

subsection \<open>Waiters, their timers and their promises\<close>

lemma distinct_snd_eq:
  "distinct (map snd xs) \<Longrightarrow> (a, q) \<in> set xs \<Longrightarrow> (b, q) \<in> set xs \<Longrightarrow> a = b"
  by (induction xs) (auto simp: image_iff)

lemma distinct_map_remove1: "distinct (map f xs) \<Longrightarrow> distinct (map f (remove1 x xs))"
  by (induction xs) (auto simp: image_iff dest: notin_set_remove1)

lemma in_remove1: "e \<in> set xs \<Longrightarrow> e \<noteq> x \<Longrightarrow> e \<in> set (remove1 x xs)"
  by simp

lemma waiters_wf_settle_entry:
  assumes wf: "waiters_wf s" and g: "Map_get (taskCallbacks s) t = Some q"
  shows "waiters_wf (s\<lparr>settled := settled s @ [(q, x)],
                       taskCallbacks := Map_delete t (taskCallbacks s)\<rparr>)"
proof -
  from g have in_cb: "(t, q) \<in> set (taskCallbacks s)" by (rule Map_get_in)
  with wf have in_tm: "(t, q) \<in> set (waiterTimers s)" by (auto simp: waiters_wf_def)
  with wf have lt: "q < nextPromise s" by (force simp: waiters_wf_def)
  have other: "snd e \<noteq> q" if "e \<in> set (taskCallbacks s)" "fst e \<noteq> t" for e
  proof
    assume "snd e = q"
    with that(1) wf have "(fst e, q) \<in> set (waiterTimers s)"
      by (metis prod.collapse waiters_wf_def)
    with wf in_tm have "fst e = t" by (auto simp: waiters_wf_def dest: distinct_snd_eq)
    with that(2) show False by simp
  qed
  show ?thesis
    using wf lt other unfolding waiters_wf_def
    by (auto simp: in_Map_delete)
qed

lemma waiters_wf_resolveTask: "waiters_wf s \<Longrightarrow> waiters_wf (resolveTask t r s)"
  using waiters_wf_settle_entry[of s t _ "Resolved r"]
  by (cases "Map_get (taskCallbacks s) t") (simp_all add: resolveTask_def settle_def)

lemma waiters_wf_rejectTask: "waiters_wf s \<Longrightarrow> waiters_wf (rejectTask t r s)"
  using waiters_wf_settle_entry[of s t _ "Rejected r"]
  by (cases "Map_get (taskCallbacks s) t") (simp_all add: rejectTask_def settle_def)

lemma waiters_wf_settle_fresh:
  assumes wf: "waiters_wf s"
  shows "waiters_wf (s\<lparr>nextPromise := Suc (nextPromise s),
                       settled := settled s @ [(nextPromise s, x)]\<rparr>)"
proof -
  from wf have "\<forall>e \<in> set (taskCallbacks s). snd e < nextPromise s"
    unfolding waiters_wf_def by blast
  then have "\<forall>e \<in> set (taskCallbacks s). snd e \<noteq> nextPromise s" by fastforce
  with wf show ?thesis unfolding waiters_wf_def by (auto simp: less_Suc_eq)
qed

lemma waiters_wf_register:
  assumes wf: "waiters_wf s"
  shows "waiters_wf (s\<lparr>nextPromise := Suc (nextPromise s),
                       taskCallbacks := Map_set t (nextPromise s) (taskCallbacks s),
                       waiterTimers := waiterTimers s @ [(t, nextPromise s)]\<rparr>)"
proof -
  from wf have "\<forall>e \<in> set (waiterTimers s). snd e \<noteq> nextPromise s"
    unfolding waiters_wf_def by fastforce
  then have a: "nextPromise s \<notin> snd ` set (waiterTimers s)" by fastforce
  from wf have "\<forall>e \<in> set (settled s). fst e \<noteq> nextPromise s"
    unfolding waiters_wf_def by fastforce
  then have b: "nextPromise s \<notin> fst ` set (settled s)" by fastforce
  from wf a b show ?thesis unfolding waiters_wf_def
    by (auto simp: less_Suc_eq dest!: in_Map_set)
qed

lemma waitForCompletion_cases:
  "(\<exists>x. waitForCompletion t s
         = s\<lparr>nextPromise := Suc (nextPromise s), settled := settled s @ [(nextPromise s, x)]\<rparr>)
   \<or> waitForCompletion t s
        = s\<lparr>nextPromise := Suc (nextPromise s),
            taskCallbacks := Map_set t (nextPromise s) (taskCallbacks s),
            waiterTimers := waiterTimers s @ [(t, nextPromise s)]\<rparr>"
proof (cases "getTask (store s) t")
  case None
  then show ?thesis
    by (intro disjI1 exI[of _ "Rejected ''Task not found''"])
       (simp add: waitForCompletion_def Let_def settle_def)
next
  case (Some task)
  consider "task_status task = Completed" | "task_status task = Failed"
    | "task_status task \<noteq> Completed" "task_status task \<noteq> Failed" by blast
  then show ?thesis
  proof cases
    case 1
    with Some show ?thesis
      by (intro disjI1 exI[of _ "Resolved (case result task of None \<Rightarrow> Undefined | Some r \<Rightarrow> Response r)"])
         (simp add: waitForCompletion_def Let_def settle_def)
  next
    case 2
    with Some show ?thesis
      by (intro disjI1 exI[of _ "Rejected (case error task of None \<Rightarrow> ''Task failed''
            | Some e \<Rightarrow> if e = [] then ''Task failed'' else e)"])
         (simp add: waitForCompletion_def Let_def settle_def)
  next
    case 3
    with Some show ?thesis
      by (intro disjI2) (simp add: waitForCompletion_def Let_def)
  qed
qed

lemma waiters_wf_waitForCompletion: "waiters_wf s \<Longrightarrow> waiters_wf (waitForCompletion t s)"
  using waitForCompletion_cases[of t s] waiters_wf_settle_fresh[of s] waiters_wf_register[of s t]
  by (elim disjE exE) simp_all

lemma waiters_wf_timer:
  assumes wf: "waiters_wf s" and armed: "(t, p) \<in> set (waiterTimers s)"
  shows "waiters_wf (waiterTimeout t p (s\<lparr>waiterTimers := remove1 (t, p) (waiterTimers s)\<rparr>))"
proof (cases "Map_has (taskCallbacks s) t")
  case False
  then have "t \<notin> fst ` set (taskCallbacks s)"
    by (simp add: Map_has_get Map_get_None_iff)
  then have ne: "e \<noteq> (t, p)" if "e \<in> set (taskCallbacks s)" for e
    using that by force
  show ?thesis
    using wf False ne unfolding waiters_wf_def
    by (auto simp: waiterTimeout_def distinct_map_remove1 dest: notin_set_remove1)
next
  case True
  from wf armed have lt: "p < nextPromise s" by (force simp: waiters_wf_def)
  have other: "snd e \<noteq> p \<and> e \<noteq> (t, p)" if "e \<in> set (taskCallbacks s)" "fst e \<noteq> t" for e
  proof
    show "snd e \<noteq> p"
    proof
      assume "snd e = p"
      with that(1) wf have "(fst e, p) \<in> set (waiterTimers s)"
        by (metis prod.collapse waiters_wf_def)
      with wf armed have "fst e = t" by (auto simp: waiters_wf_def dest: distinct_snd_eq)
      with that(2) show False by simp
    qed
    show "e \<noteq> (t, p)" using that(2) by auto
  qed
  show ?thesis
    using wf True lt other unfolding waiters_wf_def
    by (auto simp: waiterTimeout_def settle_def in_Map_delete distinct_map_remove1
        dest: notin_set_remove1)
qed

lemma waiter_fields_assign:
  "taskCallbacks (assignTaskToWorker task w now s) = taskCallbacks s"
  "nextPromise (assignTaskToWorker task w now s) = nextPromise s"
  "settled (assignTaskToWorker task w now s) = settled s"
  "waiterTimers (assignTaskToWorker task w now s) = waiterTimers s"
  by (simp_all add: assignTaskToWorker_def simulateTaskProcessing_def console_log_def Let_def)

lemma waiter_fields_processLoop:
  "taskCallbacks (processLoop pend ws now s) = taskCallbacks s
   \<and> nextPromise (processLoop pend ws now s) = nextPromise s
   \<and> settled (processLoop pend ws now s) = settled s
   \<and> waiterTimers (processLoop pend ws now s) = waiterTimers s"
  by (induction pend arbitrary: ws s) (auto simp: waiter_fields_assign split: option.splits)

lemma waiter_fields_enqueue:
  "taskCallbacks (enqueue uuid pl k prio now s) = taskCallbacks s"
  "nextPromise (enqueue uuid pl k prio now s) = nextPromise s"
  "settled (enqueue uuid pl k prio now s) = settled s"
  "waiterTimers (enqueue uuid pl k prio now s) = waiterTimers s"
  by (simp_all add: enqueue_def processQueue_def Let_def console_log_def waiter_fields_processLoop)

lemma waiters_wf_cong:
  "taskCallbacks s' = taskCallbacks s \<Longrightarrow> nextPromise s' = nextPromise s \<Longrightarrow>
   settled s' = settled s \<Longrightarrow> waiterTimers s' = waiterTimers s \<Longrightarrow>
   waiters_wf s' = waiters_wf s"
  by (simp add: waiters_wf_def)

lemma waiter_fields_processingDone:
  "taskCallbacks (processingDone t w now s) = taskCallbacks (resolveTask t (Success (Some w)) s)
   \<and> nextPromise (processingDone t w now s) = nextPromise (resolveTask t (Success (Some w)) s)
   \<and> settled (processingDone t w now s) = settled (resolveTask t (Success (Some w)) s)
   \<and> waiterTimers (processingDone t w now s) = waiterTimers (resolveTask t (Success (Some w)) s)"
proof -
  have "\<And>st. resolveTask t (Success (Some w)) (s\<lparr>store := st\<rparr>)
      = (resolveTask t (Success (Some w)) s)\<lparr>store := st\<rparr>"
    by (cases "Map_get (taskCallbacks s) t") (simp_all add: resolveTask_def settle_def)
  then show ?thesis
    by (cases "getWorker (updateTask t (\<lambda>t. t\<lparr>task_status := Completed, completedAt := Some now\<rparr>)
          (store s)) w") (simp_all add: processingDone_def Let_def console_log_def)
qed

lemma waiters_wf_step: "waiters_wf s \<Longrightarrow> enabled s e \<Longrightarrow> waiters_wf (step s e)"
proof (cases e)
  case (Enqueue uuid pl k prio now)
  assume "waiters_wf s"
  then show ?thesis using Enqueue waiters_wf_cong[of "enqueue uuid pl k prio now s" s]
    by (simp add: waiter_fields_enqueue)
next
  case (EnqueueInPass uuid pl k prio now)
  assume "waiters_wf s"
  then show ?thesis using EnqueueInPass waiters_wf_cong[of "step s e" s]
    by (simp add: waiter_fields_enqueue)
next
  case (WaitForCompletion t)
  assume "waiters_wf s"
  then show ?thesis using WaitForCompletion by (simp add: waiters_wf_waitForCompletion)
next
  case (WaiterTimerFires t p)
  assume "waiters_wf s" "enabled s e"
  then show ?thesis using WaiterTimerFires by (simp add: waiters_wf_timer)
next
  case (ProcessingTimerFires t w now)
  assume wf: "waiters_wf s"
  let ?s0 = "s\<lparr>processingTimers := remove1 (t, w) (processingTimers s)\<rparr>"
  have "waiters_wf ?s0" using wf by (simp add: waiters_wf_def)
  then have "waiters_wf (resolveTask t (Success (Some w)) ?s0)" by (rule waiters_wf_resolveTask)
  then have "waiters_wf (processingDone t w now ?s0)"
    using waiters_wf_cong[of "processingDone t w now ?s0" "resolveTask t (Success (Some w)) ?s0"]
    by (simp add: waiter_fields_processingDone)
  then show ?thesis using ProcessingTimerFires by simp
next
  case (ResolveTask t r)
  assume "waiters_wf s"
  then show ?thesis using ResolveTask by (simp add: waiters_wf_resolveTask)
next
  case (RejectTask t r)
  assume "waiters_wf s"
  then show ?thesis using RejectTask by (simp add: waiters_wf_rejectTask)
next
  case (CreateWorker uuid host r1 r2 r3 now)
  assume "waiters_wf s"
  then show ?thesis using CreateWorker by (simp add: waiters_wf_def)
next
  case (RemoveWorker w)
  assume "waiters_wf s"
  then show ?thesis using RemoveWorker by (simp add: waiters_wf_def)
next
  case (HeartbeatTick draws now)
  assume "waiters_wf s"
  then show ?thesis using HeartbeatTick by (simp add: waiters_wf_def)
qed

lemma reachable_waiters_wf: "reachable s \<Longrightarrow> waiters_wf s"
proof (induction rule: reachable.induct)
  case reachable_initial
  show ?case by (simp add: waiters_wf_def initial_def)
next
  case (reachable_step s e)
  then show ?case by (simp add: waiters_wf_step)
qed

lemma entry_not_timed_out:
  assumes "waiters_wf s" and "p \<notin> snd ` set (waiterTimers s)"
    and "Map_get (taskCallbacks s) t = Some q"
  shows "q \<noteq> p"
proof -
  from assms(3) have "(t, q) \<in> set (taskCallbacks s)" by (rule Map_get_in)
  with assms(1) have "(t, q) \<in> set (waiterTimers s)" by (auto simp: waiters_wf_def)
  with assms(2) show ?thesis by force
qed

lemma quiet_resolveTask:
  assumes "waiters_wf s" and "p \<notin> snd ` set (waiterTimers s)"
  shows "nextPromise (resolveTask t r s) = nextPromise s
       \<and> waiterTimers (resolveTask t r s) = waiterTimers s
       \<and> filter (\<lambda>x. fst x = p) (settled (resolveTask t r s)) = filter (\<lambda>x. fst x = p) (settled s)"
proof (cases "Map_get (taskCallbacks s) t")
  case None
  then show ?thesis by (simp add: resolveTask_def)
next
  case (Some q)
  with assms have "q \<noteq> p" by (rule entry_not_timed_out)
  with Some show ?thesis by (simp add: resolveTask_def settle_def)
qed

lemma quiet_rejectTask:
  assumes "waiters_wf s" and "p \<notin> snd ` set (waiterTimers s)"
  shows "nextPromise (rejectTask t r s) = nextPromise s
       \<and> waiterTimers (rejectTask t r s) = waiterTimers s
       \<and> filter (\<lambda>x. fst x = p) (settled (rejectTask t r s)) = filter (\<lambda>x. fst x = p) (settled s)"
proof (cases "Map_get (taskCallbacks s) t")
  case None
  then show ?thesis by (simp add: rejectTask_def)
next
  case (Some q)
  with assms have "q \<noteq> p" by (rule entry_not_timed_out)
  with Some show ?thesis by (simp add: rejectTask_def settle_def)
qed

lemma quiet_step:
  assumes wf: "waiters_wf s" and en: "enabled s e"
    and lt: "p < nextPromise s" and nt: "p \<notin> snd ` set (waiterTimers s)"
  shows "p < nextPromise (step s e) \<and> p \<notin> snd ` set (waiterTimers (step s e))
       \<and> filter (\<lambda>x. fst x = p) (settled (step s e)) = filter (\<lambda>x. fst x = p) (settled s)"
proof (cases e)
  case (Enqueue uuid pl k prio now)
  with lt nt show ?thesis by (simp add: waiter_fields_enqueue)
next
  case (EnqueueInPass uuid pl k prio now)
  with lt nt show ?thesis by (simp add: waiter_fields_enqueue)
next
  case (WaitForCompletion t)
  from lt have ne: "nextPromise s \<noteq> p" by simp
  from waitForCompletion_cases[of t s] show ?thesis
  proof (elim disjE exE)
    fix x assume "waitForCompletion t s
        = s\<lparr>nextPromise := Suc (nextPromise s), settled := settled s @ [(nextPromise s, x)]\<rparr>"
    with lt nt ne WaitForCompletion show ?thesis by simp
  next
    assume "waitForCompletion t s
        = s\<lparr>nextPromise := Suc (nextPromise s),
            taskCallbacks := Map_set t (nextPromise s) (taskCallbacks s),
            waiterTimers := waiterTimers s @ [(t, nextPromise s)]\<rparr>"
    with lt nt ne WaitForCompletion show ?thesis by simp
  qed
next
  case (WaiterTimerFires t q)
  with en have "(t, q) \<in> set (waiterTimers s)" by simp
  with nt have "q \<noteq> p" by force
  moreover have "p \<notin> snd ` set (remove1 (t, q) (waiterTimers s))"
    using nt set_remove1_subset[of "(t, q)" "waiterTimers s"] by force
  ultimately show ?thesis using lt WaiterTimerFires
    by (simp add: waiterTimeout_def settle_def)
next
  case (ProcessingTimerFires t w now)
  let ?s0 = "s\<lparr>processingTimers := remove1 (t, w) (processingTimers s)\<rparr>"
  have "waiters_wf ?s0" "p \<notin> snd ` set (waiterTimers ?s0)"
    using wf nt by (simp_all add: waiters_wf_def)
  from quiet_resolveTask[OF this, of t "Success (Some w)"] lt nt ProcessingTimerFires
  show ?thesis by (simp add: waiter_fields_processingDone)
next
  case (ResolveTask t r)
  with quiet_resolveTask[OF wf nt, of t r] lt nt show ?thesis by simp
next
  case (RejectTask t r)
  with quiet_rejectTask[OF wf nt, of t r] lt nt show ?thesis by simp
next
  case (CreateWorker uuid host r1 r2 r3 now)
  with lt nt show ?thesis by simp
next
  case (RemoveWorker w)
  with lt nt show ?thesis by simp
next
  case (HeartbeatTick draws now)
  with lt nt show ?thesis by simp
qed

lemma quiet_reaches:
  assumes "reaches s0 s''" and "waiters_wf s0" and "p < nextPromise s0"
    and "p \<notin> snd ` set (waiterTimers s0)"
  shows "waiters_wf s'' \<and> p < nextPromise s'' \<and> p \<notin> snd ` set (waiterTimers s'')
       \<and> filter (\<lambda>x. fst x = p) (settled s'') = filter (\<lambda>x. fst x = p) (settled s0)"
  using assms
proof (induction rule: reaches.induct)
  case reaches_refl
  then show ?case by simp
next
  case (reaches_step s' e)
  then have ih: "waiters_wf s'" "p < nextPromise s'" "p \<notin> snd ` set (waiterTimers s')"
    "filter (\<lambda>x. fst x = p) (settled s') = filter (\<lambda>x. fst x = p) (settled s0)" by blast+
  from quiet_step[OF ih(1) reaches_step.hyps(2) ih(2,3)] waiters_wf_step[OF ih(1) reaches_step.hyps(2)] ih(4)
  show ?case by simp
qed

lemma timer_promise_gone:
  "distinct (map snd xs) \<Longrightarrow> (t, p) \<in> set xs \<Longrightarrow> p \<notin> snd ` set (remove1 (t, p) xs)"
  by (induction xs) (auto simp: image_iff dest: notin_set_remove1)

subsection \<open>What a scheduling pass does to the store\<close>

lemma distinct_map_insort_key:
  "distinct (map f (insort_key k x xs)) = (f x \<notin> f ` set xs \<and> distinct (map f xs))"
  by (induction xs) (auto simp: set_insort_key)

lemma distinct_map_sort_key: "distinct (map f (sort_key k xs)) = distinct (map f xs)"
  by (induction xs) (simp_all add: distinct_map_insort_key)

lemma distinct_spliceWorker:
  "distinct (map worker_id ws) \<Longrightarrow> distinct (map worker_id (spliceWorker i ws))"
proof (induction ws)
  case Nil
  show ?case by simp
next
  case (Cons w ws)
  have "worker_id ` set (spliceWorker i ws) \<subseteq> worker_id ` set ws"
    using set_spliceWorker[of i ws] by blast
  with Cons show ?case by auto
qed

lemma spliceWorker_gone:
  "distinct (map worker_id ws) \<Longrightarrow> i \<notin> worker_id ` set (spliceWorker i ws)"
  by (induction ws) auto

lemma getTask_assignTaskToWorker:
  "getTask (store (assignTaskToWorker task worker now s)) j
     = (if j = task_id task
        then map_option (\<lambda>t. t\<lparr>task_status := Processing, assignedWorker := Some (worker_id worker),
                                startedAt := Some now\<rparr>) (getTask (store s) j)
        else getTask (store s) j)"
proof -
  have "getTask (store (assignTaskToWorker task worker now s)) j
      = Map_get (tasks (store (assignTaskToWorker task worker now s))) j"
    by (simp add: getTask_def)
  also have "\<dots> = getTask (updateTask (task_id task) (\<lambda>t. t\<lparr>task_status := Processing, startedAt := Some now\<rparr>)
             (updateTask (task_id task)
                (\<lambda>t. t\<lparr>task_status := Assigned, assignedWorker := Some (worker_id worker)\<rparr>) (store s))) j"
    unfolding tasks_assignTaskToWorker by (simp add: getTask_def)
  also have "\<dots> = (if j = task_id task
        then map_option (\<lambda>t. t\<lparr>task_status := Processing, assignedWorker := Some (worker_id worker),
                                startedAt := Some now\<rparr>) (getTask (store s) j)
        else getTask (store s) j)"
    by (cases "getTask (store s) (task_id task)") (simp_all add: getTask_updateTask)
  finally show ?thesis .
qed

lemma getWorker_assignTaskToWorker:
  "getWorker (store (assignTaskToWorker task worker now s)) j
     = (if j = worker_id worker
        then map_option (\<lambda>w. w\<lparr>currentLoad := currentLoad worker + 1\<rparr>) (getWorker (store s) j)
        else getWorker (store s) j)"
proof -
  have "getWorker (store (assignTaskToWorker task worker now s)) j
      = Map_get (workers (store (assignTaskToWorker task worker now s))) j"
    by (simp add: getWorker_def)
  also have "\<dots> = getWorker (updateWorker (worker_id worker)
      (\<lambda>w. w\<lparr>currentLoad := currentLoad worker + 1\<rparr>) (store s)) j"
    unfolding workers_assignTaskToWorker by (simp add: getWorker_def)
  finally show ?thesis by (simp add: getWorker_updateWorker)
qed

lemma processingTimers_assignTaskToWorker:
  "processingTimers (assignTaskToWorker task worker now s)
     = processingTimers s @ [(task_id task, worker_id worker)]"
  by (simp add: assignTaskToWorker_def simulateTaskProcessing_def console_log_def Let_def)

lemma processLoop_effect:
  assumes "\<forall>t \<in> set pend. getTask (store s) (task_id t) = Some t"
    and "distinct (map task_id pend)"
    and "\<forall>w \<in> set ws. getWorker (store s) (worker_id w) = Some w"
    and "distinct (map worker_id ws)"
  shows "\<exists>cs. length cs = min (length ws) (length pend)
     \<and> set cs \<subseteq> set ws \<and> distinct (map worker_id cs)
     \<and> processingTimers (processLoop pend ws now s)
         = processingTimers s @ zip (map task_id pend) (map worker_id cs)
     \<and> (\<forall>i < length cs.
           getTask (store (processLoop pend ws now s)) (task_id (pend ! i))
             = Some ((pend ! i)\<lparr>task_status := Processing,
                                 assignedWorker := Some (worker_id (cs ! i)),
                                 startedAt := Some now\<rparr>)
         \<and> getWorker (store (processLoop pend ws now s)) (worker_id (cs ! i))
             = Some ((cs ! i)\<lparr>currentLoad := currentLoad (cs ! i) + 1\<rparr>))
     \<and> (\<forall>j. j \<notin> task_id ` set (take (length ws) pend) \<longrightarrow>
           getTask (store (processLoop pend ws now s)) j = getTask (store s) j)
     \<and> (\<forall>j. j \<notin> worker_id ` set cs \<longrightarrow>
           getWorker (store (processLoop pend ws now s)) j = getWorker (store s) j)"
  using assms
proof (induction pend arbitrary: ws s)
  case Nil
  show ?case by (intro exI[of _ "[]"]) simp
next
  case (Cons task rest)
  show ?case
  proof (cases "ws = []")
    case True
    then show ?thesis by (intro exI[of _ "[]"]) simp
  next
    case False
    define w where "w = hd (sort_key loadRatio ws)"
    have sel: "selectBestWorker ws task = Some w"
      unfolding w_def using False by (rule selectBestWorker_hd)
    then have win: "w \<in> set ws" by (rule selectBestWorker_in)
    define ws' where "ws' = spliceWorker (worker_id w) (sortByLoadRatio ws)"
    define s1 where "s1 = assignTaskToWorker task w now s"
    have loop: "processLoop (task # rest) ws now s = processLoop rest ws' now s1"
      using False sel by (simp add: ws'_def s1_def)
    have dsorted: "distinct (map worker_id (sortByLoadRatio ws))"
      using Cons.prems(4) by (simp add: sortByLoadRatio_sort_key distinct_map_sort_key)
    have sub: "set ws' \<subseteq> set ws" unfolding ws'_def by (rule pool_subset)
    have dws': "distinct (map worker_id ws')"
      unfolding ws'_def using dsorted by (rule distinct_spliceWorker)
    have gone: "worker_id w \<notin> worker_id ` set ws'"
      unfolding ws'_def using dsorted by (rule spliceWorker_gone)
    have "\<exists>v \<in> set (sortByLoadRatio ws). worker_id v = worker_id w"
      using win by (auto simp: sortByLoadRatio_def set_Array_sort)
    then have "Suc (length ws') = length (sortByLoadRatio ws)"
      unfolding ws'_def by (rule length_spliceWorker)
    then have len: "length ws = Suc (length ws')"
      by (simp add: sortByLoadRatio_def length_Array_sort)
    have tid: "task_id task \<notin> task_id ` set rest" using Cons.prems(2) by auto
    have p1: "\<forall>t \<in> set rest. getTask (store s1) (task_id t) = Some t"
    proof
      fix t assume t: "t \<in> set rest"
      with tid have "task_id t \<noteq> task_id task" by (metis imageI)
      with t Cons.prems(1) show "getTask (store s1) (task_id t) = Some t"
        by (simp add: s1_def getTask_assignTaskToWorker)
    qed
    have p2: "distinct (map task_id rest)" using Cons.prems(2) by simp
    have p3: "\<forall>v \<in> set ws'. getWorker (store s1) (worker_id v) = Some v"
    proof
      fix v assume v: "v \<in> set ws'"
      with gone have "worker_id v \<noteq> worker_id w" by (metis imageI)
      with v sub Cons.prems(3) show "getWorker (store s1) (worker_id v) = Some v"
        by (auto simp: s1_def getWorker_assignTaskToWorker)
    qed
    from Cons.IH[OF p1 p2 p3 dws', of] obtain cs where
      c1: "length cs = min (length ws') (length rest)"
      and c2: "set cs \<subseteq> set ws'" and c3: "distinct (map worker_id cs)"
      and c4: "processingTimers (processLoop rest ws' now s1)
         = processingTimers s1 @ zip (map task_id rest) (map worker_id cs)"
      and c5: "\<And>i. i < length cs \<Longrightarrow>
           getTask (store (processLoop rest ws' now s1)) (task_id (rest ! i))
             = Some ((rest ! i)\<lparr>task_status := Processing,
                                 assignedWorker := Some (worker_id (cs ! i)),
                                 startedAt := Some now\<rparr>)
         \<and> getWorker (store (processLoop rest ws' now s1)) (worker_id (cs ! i))
             = Some ((cs ! i)\<lparr>currentLoad := currentLoad (cs ! i) + 1\<rparr>)"
      and c6: "\<And>j. j \<notin> task_id ` set (take (length ws') rest) \<Longrightarrow>
           getTask (store (processLoop rest ws' now s1)) j = getTask (store s1) j"
      and c7: "\<And>j. j \<notin> worker_id ` set cs \<Longrightarrow>
           getWorker (store (processLoop rest ws' now s1)) j = getWorker (store s1) j"
      by blast
    have wcs: "worker_id w \<notin> worker_id ` set cs" using gone c2 by blast
    have t0: "getTask (store s1) (task_id task)
        = Some (task\<lparr>task_status := Processing, assignedWorker := Some (worker_id w),
                     startedAt := Some now\<rparr>)"
      using Cons.prems(1) by (simp add: s1_def getTask_assignTaskToWorker)
    have w0: "getWorker (store s1) (worker_id w) = Some (w\<lparr>currentLoad := currentLoad w + 1\<rparr>)"
      using Cons.prems(3) win by (simp add: s1_def getWorker_assignTaskToWorker)
    have tk: "task_id task \<notin> task_id ` set (take (length ws') rest)"
      using tid set_take_subset[of "length ws'" rest] by blast
    show ?thesis
    proof (intro exI[of _ "w # cs"] conjI allI impI)
      show "length (w # cs) = min (length ws) (length (task # rest))"
        using c1 len by simp
      show "set (w # cs) \<subseteq> set ws" using win c2 sub by auto
      show "distinct (map worker_id (w # cs))" using c3 wcs by simp
      show "processingTimers (processLoop (task # rest) ws now s)
          = processingTimers s @ zip (map task_id (task # rest)) (map worker_id (w # cs))"
        unfolding loop c4 by (simp add: s1_def processingTimers_assignTaskToWorker)
    next
      fix i assume i: "i < length (w # cs)"
      show "getTask (store (processLoop (task # rest) ws now s)) (task_id ((task # rest) ! i))
          = Some (((task # rest) ! i)\<lparr>task_status := Processing,
                     assignedWorker := Some (worker_id ((w # cs) ! i)), startedAt := Some now\<rparr>)"
      proof (cases i)
        case 0
        then show ?thesis unfolding loop using c6[OF tk] t0 by simp
      next
        case (Suc k)
        with i have "k < length cs" by simp
        from c5[OF this] Suc show ?thesis unfolding loop by simp
      qed
      show "getWorker (store (processLoop (task # rest) ws now s)) (worker_id ((w # cs) ! i))
          = Some (((w # cs) ! i)\<lparr>currentLoad := currentLoad ((w # cs) ! i) + 1\<rparr>)"
      proof (cases i)
        case 0
        then show ?thesis unfolding loop using c7[OF wcs] w0 by simp
      next
        case (Suc k)
        with i have "k < length cs" by simp
        from c5[OF this] Suc show ?thesis unfolding loop by simp
      qed
    next
      fix j assume j: "j \<notin> task_id ` set (take (length ws) (task # rest))"
      then have "j \<noteq> task_id task" "j \<notin> task_id ` set (take (length ws') rest)"
        by (simp_all add: len)
      then show "getTask (store (processLoop (task # rest) ws now s)) j = getTask (store s) j"
        unfolding loop using c6[of j] by (simp add: s1_def getTask_assignTaskToWorker)
    next
      fix j assume j: "j \<notin> worker_id ` set (w # cs)"
      then have "j \<noteq> worker_id w" "j \<notin> worker_id ` set cs" by simp_all
      then show "getWorker (store (processLoop (task # rest) ws now s)) j = getWorker (store s) j"
        unfolding loop using c7[of j] by (simp add: s1_def getWorker_assignTaskToWorker)
    qed
  qed
qed

lemma keys_ids:
  "\<forall>e \<in> set m. f (snd e) = fst e \<Longrightarrow> map (f \<circ> snd) m = map fst m"
  by (induction m) simp_all

lemma distinct_pending:
  assumes "distinct (map fst (tasks st))" and "\<forall>e \<in> set (tasks st). task_id (snd e) = fst e"
  shows "distinct (map task_id (getPendingTasks st))"
proof -
  have eq: "map (task_id \<circ> snd) (tasks st) = map fst (tasks st)"
    using assms(2) by (rule keys_ids)
  have "distinct (map (task_id \<circ> snd) (tasks st))" unfolding eq by (rule assms(1))
  then have "distinct (map task_id (map snd (tasks st)))" by (simp only: map_map)
  then have "distinct (map task_id (filter (\<lambda>t. task_status t = Pending) (getAllTasks st)))"
    by (simp add: getAllTasks_def Map_values_def distinct_map_filter)
  then show ?thesis by (simp add: getPendingTasks_sort_key distinct_map_sort_key)
qed

lemma getTask_pending:
  assumes "distinct (map fst (tasks st))" and "\<forall>e \<in> set (tasks st). task_id (snd e) = fst e"
    and "t \<in> set (getPendingTasks st)"
  shows "getTask st (task_id t) = Some t \<and> task_status t = Pending"
proof -
  from assms(3) have "t \<in> snd ` set (tasks st)" and p: "task_status t = Pending"
    by (auto simp: getPendingTasks_sort_key getAllTasks_def Map_values_def)
  then obtain k where k: "(k, t) \<in> set (tasks st)" by force
  with assms(2) have "task_id t = k" by fastforce
  with k assms(1) p show ?thesis by (simp add: getTask_def Map_get_distinct)
qed

lemma distinct_available:
  assumes "registry_wf st"
  shows "distinct (map worker_id (getAvailableWorkers st))"
proof -
  from assms have d: "distinct (map fst (workers st))"
    and k: "\<forall>e \<in> set (workers st). worker_id (snd e) = fst e"
    by (simp_all add: registry_wf_def)
  have eq: "map (worker_id \<circ> snd) (workers st) = map fst (workers st)"
    using k by (rule keys_ids)
  have "distinct (map (worker_id \<circ> snd) (workers st))" unfolding eq by (rule d)
  then have "distinct (map worker_id (map snd (workers st)))" by (simp only: map_map)
  then show ?thesis
    by (simp add: getAvailableWorkers_def getOnlineWorkers_def getAllWorkers_def Map_values_def
        distinct_map_filter)
qed

lemma store_order_addTask:
  "i \<notin> fst ` set (tasks st) \<Longrightarrow> task_id t = i \<Longrightarrow> getAllTasks (addTask t st) = getAllTasks st @ [t]"
proof -
  have "\<And>m. i \<notin> fst ` set m \<Longrightarrow> Map_set i t m = m @ [(i, t)]"
  proof -
    fix m :: "(string \<times> InferenceTask) list"
    show "i \<notin> fst ` set m \<Longrightarrow> Map_set i t m = m @ [(i, t)]" by (induction m) auto
  qed
  then show "i \<notin> fst ` set (tasks st) \<Longrightarrow> task_id t = i \<Longrightarrow> getAllTasks (addTask t st) = getAllTasks st @ [t]"
    by (simp add: getAllTasks_def addTask_def Map_values_def)
qed

lemma enqueue_unfold:
  "\<not> processing s \<Longrightarrow>
   enqueue uuid pl keyId prio now s
     = (processLoop
          (getPendingTasks (addTask \<lparr>task_id = uuid, task_type = chat_completion, payload = pl,
              apiKeyId = keyId, priority = prio, task_status = Pending, assignedWorker = None,
              result = None, error = None, createdAt = now, startedAt = None,
              completedAt = None\<rparr> (store s)))
          (getAvailableWorkers (store s)) now
          (s\<lparr>store := addTask \<lparr>task_id = uuid, task_type = chat_completion, payload = pl,
              apiKeyId = keyId, priority = prio, task_status = Pending, assignedWorker = None,
              result = None, error = None, createdAt = now, startedAt = None,
              completedAt = None\<rparr> (store s),
             issued := uuid # issued s, console := console s @ [TaskAdded uuid],
             processing := True\<rparr>))\<lparr>processing := False\<rparr>"
  by (simp add: enqueue_def processQueue_def Let_def console_log_def getAvailableWorkers_def
      getOnlineWorkers_def getAllWorkers_def workers_addTask)

lemma store_processing_update: "store (s\<lparr>processing := b\<rparr>) = store s" by simp

lemma enqueue_effect:
  fixes s uuid pl keyId prio now
  defines "task \<equiv> \<lparr>task_id = uuid, task_type = chat_completion, payload = pl,
              apiKeyId = keyId, priority = prio, task_status = Pending, assignedWorker = None,
              result = None, error = None, createdAt = now, startedAt = None,
              completedAt = None\<rparr>"
  defines "pend \<equiv> getPendingTasks (addTask task (store s))"
  defines "pool \<equiv> getAvailableWorkers (store s)"
  defines "s' \<equiv> enqueue uuid pl keyId prio now s"
  assumes twf: "tasks_wf s" and rwf: "registry_wf (store s)" and fresh: "uuid \<notin> set (issued s)"
  shows "\<exists>cs. length cs = min (length pool) (length pend)
     \<and> set cs \<subseteq> set pool \<and> distinct (map worker_id cs)
     \<and> processingTimers s' = processingTimers s @ zip (map task_id pend) (map worker_id cs)
     \<and> (\<forall>i < length cs.
           getTask (store s') (task_id (pend ! i))
             = Some ((pend ! i)\<lparr>task_status := Processing,
                                 assignedWorker := Some (worker_id (cs ! i)),
                                 startedAt := Some now\<rparr>)
         \<and> getWorker (store s') (worker_id (cs ! i))
             = Some ((cs ! i)\<lparr>currentLoad := currentLoad (cs ! i) + 1\<rparr>))
     \<and> (\<forall>j. j \<notin> task_id ` set (take (length pool) pend) \<longrightarrow>
           getTask (store s') j = getTask (addTask task (store s)) j)
     \<and> (\<forall>j. j \<notin> worker_id ` set cs \<longrightarrow> getWorker (store s') j = getWorker (store s) j)"
proof -
  define s2 where "s2 = s\<lparr>store := addTask task (store s),
             issued := uuid # issued s, console := console s @ [TaskAdded uuid],
             processing := True\<rparr>"
  from twf have np: "\<not> processing s" by (simp add: tasks_wf_def)
  have e: "s' = (processLoop pend pool now s2)\<lparr>processing := False\<rparr>"
    unfolding s'_def pend_def pool_def s2_def task_def using np by (rule enqueue_unfold)
  have st2: "store s2 = addTask task (store s)" by (simp add: s2_def)
  have d1: "distinct (map fst (tasks (addTask task (store s))))"
    using twf by (simp add: tasks_wf_def addTask_def distinct_Map_set)
  have k1: "\<forall>e \<in> set (tasks (addTask task (store s))). task_id (snd e) = fst e"
    using twf by (auto simp: tasks_wf_def addTask_def task_def dest!: in_Map_set)
  have a1: "\<forall>t \<in> set pend. getTask (store s2) (task_id t) = Some t"
    unfolding st2 pend_def using getTask_pending[OF d1 k1] by blast
  have a2: "distinct (map task_id pend)" unfolding pend_def using d1 k1 by (rule distinct_pending)
  have a3: "\<forall>w \<in> set pool. getWorker (store s2) (worker_id w) = Some w"
    unfolding pool_def st2 using getWorker_available[OF rwf]
    by (simp add: getWorker_def workers_addTask)
  have a4: "distinct (map worker_id pool)" unfolding pool_def using rwf by (rule distinct_available)
  have pt: "processingTimers s2 = processingTimers s" by (simp add: s2_def)
  have gw: "\<And>j. getWorker (addTask task (store s)) j = getWorker (store s) j"
    by (simp add: getWorker_def workers_addTask)
  from processLoop_effect[OF a1 a2 a3 a4, of now]
  show ?thesis unfolding e store_processing_update pt st2 gw by simp
qed

subsection \<open>Tasks, their identifiers and their processing timers\<close>

lemma keys_updateTask: "map fst (tasks (updateTask i f st)) = map fst (tasks st)"
proof (cases "Map_get (tasks st) i")
  case None
  then show ?thesis by (simp add: updateTask_def)
next
  case (Some t)
  then have "map fst (Map_set i (f t) (tasks st)) = map fst (tasks st)"
    by (rule map_Map_set_same) simp
  with Some show ?thesis by (simp add: updateTask_def)
qed

lemma ids_updateTask:
  assumes "\<forall>e \<in> set (tasks st). task_id (snd e) = fst e" and "\<And>t. task_id (f t) = task_id t"
  shows "\<forall>e \<in> set (tasks (updateTask i f st)). task_id (snd e) = fst e"
proof
  fix e assume "e \<in> set (tasks (updateTask i f st))"
  then consider "e \<in> set (tasks st)" | t where "Map_get (tasks st) i = Some t" "e = (i, f t)"
    using in_tasks_updateTask by blast
  then show "task_id (snd e) = fst e"
  proof cases
    case 1 with assms(1) show ?thesis by blast
  next
    case 2
    from 2(1) have "(i, t) \<in> set (tasks st)" by (rule Map_get_in)
    with assms(1) have "task_id t = i" by fastforce
    with assms(2) 2 show ?thesis by simp
  qed
qed

lemma keys_all:
  assumes "map fst m' = map fst m" and "\<forall>e \<in> set m. P (fst e)"
  shows "\<forall>e \<in> set m'. P (fst e)"
proof
  fix e assume "e \<in> set m'"
  then have "fst e \<in> set (map fst m')" by simp
  then have "fst e \<in> set (map fst m)" by (simp only: assms(1))
  then obtain e' where "e' \<in> set m" "fst e' = fst e" by auto
  with assms(2) show "P (fst e)" by metis
qed

lemma keys_assignTaskToWorker:
  "map fst (tasks (store (assignTaskToWorker task w now s))) = map fst (tasks (store s))"
  by (simp add: tasks_assignTaskToWorker keys_updateTask)

lemma ids_assignTaskToWorker:
  assumes "\<forall>e \<in> set (tasks (store s)). task_id (snd e) = fst e"
  shows "\<forall>e \<in> set (tasks (store (assignTaskToWorker task w now s))). task_id (snd e) = fst e"
  unfolding tasks_assignTaskToWorker
  by (intro ids_updateTask assms) simp_all

lemma timers_assignTaskToWorker:
  assumes "\<forall>e \<in> set (processingTimers s).
             \<exists>t. getTask (store s) (fst e) = Some t \<and> task_status t \<noteq> Pending"
    and "getTask (store s) (task_id task) \<noteq> None"
  shows "\<forall>e \<in> set (processingTimers (assignTaskToWorker task w now s)).
           \<exists>t. getTask (store (assignTaskToWorker task w now s)) (fst e) = Some t
               \<and> task_status t \<noteq> Pending"
proof
  fix e assume "e \<in> set (processingTimers (assignTaskToWorker task w now s))"
  then consider "e \<in> set (processingTimers s)" | "e = (task_id task, worker_id w)"
    by (auto simp: processingTimers_assignTaskToWorker)
  then show "\<exists>t. getTask (store (assignTaskToWorker task w now s)) (fst e) = Some t
               \<and> task_status t \<noteq> Pending"
  proof cases
    case 1
    with assms(1) obtain t where "getTask (store s) (fst e) = Some t" "task_status t \<noteq> Pending"
      by blast
    then show ?thesis by (auto simp: getTask_assignTaskToWorker)
  next
    case 2
    from assms(2) obtain t where "getTask (store s) (task_id task) = Some t" by blast
    with 2 show ?thesis by (simp add: getTask_assignTaskToWorker)
  qed
qed

lemma processLoop_tasks_wf:
  assumes "\<forall>e \<in> set (tasks (store s)). task_id (snd e) = fst e"
    and "\<forall>e \<in> set (processingTimers s).
           \<exists>t. getTask (store s) (fst e) = Some t \<and> task_status t \<noteq> Pending"
    and "\<forall>t \<in> set pend. getTask (store s) (task_id t) \<noteq> None"
  shows "map fst (tasks (store (processLoop pend ws now s))) = map fst (tasks (store s))
       \<and> (\<forall>e \<in> set (tasks (store (processLoop pend ws now s))). task_id (snd e) = fst e)
       \<and> (\<forall>e \<in> set (processingTimers (processLoop pend ws now s)).
             \<exists>t. getTask (store (processLoop pend ws now s)) (fst e) = Some t
                 \<and> task_status t \<noteq> Pending)
       \<and> issued (processLoop pend ws now s) = issued s
       \<and> processing (processLoop pend ws now s) = processing s"
  using assms
proof (induction pend arbitrary: ws s)
  case Nil
  then show ?case by simp
next
  case (Cons task rest)
  show ?case
  proof (cases "selectBestWorker ws task")
    case None
    from Cons.IH[of s "sortByLoadRatio ws"] Cons.prems None show ?thesis by simp
  next
    case (Some w)
    then have ne: "ws \<noteq> []" by (auto simp: selectBestWorker_def split: if_splits)
    let ?s1 = "assignTaskToWorker task w now s"
    have a: "\<forall>e \<in> set (tasks (store ?s1)). task_id (snd e) = fst e"
      using Cons.prems(1) by (rule ids_assignTaskToWorker)
    have b: "\<forall>e \<in> set (processingTimers ?s1).
           \<exists>t. getTask (store ?s1) (fst e) = Some t \<and> task_status t \<noteq> Pending"
      using Cons.prems(2) Cons.prems(3) by (intro timers_assignTaskToWorker) simp_all
    have c: "\<forall>t \<in> set rest. getTask (store ?s1) (task_id t) \<noteq> None"
      using Cons.prems(3) by (auto simp: getTask_assignTaskToWorker)
    have f: "issued ?s1 = issued s" "processing ?s1 = processing s"
      by (simp_all add: assignTaskToWorker_def simulateTaskProcessing_def console_log_def Let_def)
    from Cons.IH[OF a b c] Some f ne show ?thesis
      by (simp add: keys_assignTaskToWorker)
  qed
qed

lemma tasks_wf_enqueue:
  assumes twf: "tasks_wf s" and fresh: "uuid \<notin> set (issued s)"
  shows "tasks_wf (enqueue uuid pl keyId prio now s)"
proof -
  define task where "task = \<lparr>task_id = uuid, task_type = chat_completion, payload = pl,
              apiKeyId = keyId, priority = prio, task_status = Pending, assignedWorker = None,
              result = None, error = None, createdAt = now, startedAt = None,
              completedAt = None\<rparr>"
  define s2 where "s2 = s\<lparr>store := addTask task (store s),
             issued := uuid # issued s, console := console s @ [TaskAdded uuid],
             processing := True\<rparr>"
  define pend where "pend = getPendingTasks (addTask task (store s))"
  define s3 where "s3 = processLoop pend (getAvailableWorkers (store s)) now s2"
  from twf have np: "\<not> processing s" by (simp add: tasks_wf_def)
  have e: "enqueue uuid pl keyId prio now s = s3\<lparr>processing := False\<rparr>"
    unfolding s3_def pend_def s2_def task_def using np by (rule enqueue_unfold)
  have st2: "store s2 = addTask task (store s)" by (simp add: s2_def)
  have d1: "distinct (map fst (tasks (store s2)))"
    using twf by (simp add: st2 tasks_wf_def addTask_def distinct_Map_set)
  have k1: "\<forall>e \<in> set (tasks (store s2)). task_id (snd e) = fst e"
    using twf by (auto simp: st2 tasks_wf_def addTask_def task_def dest!: in_Map_set)
  have i1: "\<forall>e \<in> set (tasks (store s2)). fst e \<in> set (issued s2)"
    using twf by (auto simp: s2_def tasks_wf_def addTask_def task_def dest!: in_Map_set)
  have t1: "\<forall>e \<in> set (processingTimers s2).
           \<exists>t. getTask (store s2) (fst e) = Some t \<and> task_status t \<noteq> Pending"
  proof
    fix e assume "e \<in> set (processingTimers s2)"
    then have "e \<in> set (processingTimers s)" by (simp add: s2_def)
    with twf obtain t where t: "getTask (store s) (fst e) = Some t" "task_status t \<noteq> Pending"
      unfolding tasks_wf_def by blast
    from t(1) have "(fst e, t) \<in> set (tasks (store s))" by (simp add: getTask_def Map_get_in)
    with twf have "fst e \<in> set (issued s)" unfolding tasks_wf_def by fastforce
    with fresh have "fst e \<noteq> uuid" by blast
    with t show "\<exists>t. getTask (store s2) (fst e) = Some t \<and> task_status t \<noteq> Pending"
      by (simp add: st2 getTask_def addTask_def Map_get_set task_def)
  qed
  have p1: "\<forall>t \<in> set pend. getTask (store s2) (task_id t) \<noteq> None"
    unfolding pend_def st2[symmetric] using getTask_pending[OF d1 k1] by force
  from processLoop_tasks_wf[OF k1 t1 p1, of "getAvailableWorkers (store s)" now]
  have r: "map fst (tasks (store s3)) = map fst (tasks (store s2))"
    "\<forall>e \<in> set (tasks (store s3)). task_id (snd e) = fst e"
    "\<forall>e \<in> set (processingTimers s3).
             \<exists>t. getTask (store s3) (fst e) = Some t \<and> task_status t \<noteq> Pending"
    "issued s3 = issued s2"
    unfolding s3_def by blast+
  have i3: "\<forall>e \<in> set (tasks (store s3)). fst e \<in> set (issued s3)"
    unfolding r(4) using r(1) i1 by (rule keys_all)
  show ?thesis unfolding e tasks_wf_def using d1 r i3 by simp
qed

lemma tasks_wf_processingDone:
  assumes twf: "tasks_wf s"
  shows "tasks_wf (processingDone taskId workerId now
           (s\<lparr>processingTimers := remove1 (taskId, workerId) (processingTimers s)\<rparr>))"
proof -
  let ?s0 = "s\<lparr>processingTimers := remove1 (taskId, workerId) (processingTimers s)\<rparr>"
  let ?f = "\<lambda>t. t\<lparr>task_status := Completed, completedAt := Some now\<rparr>"
  let ?s' = "processingDone taskId workerId now ?s0"
  have tk: "tasks (store ?s') = tasks (updateTask taskId ?f (store s))"
    using tasks_processingDone[of taskId workerId now ?s0]
      updateTask_tasks_cong[of "store ?s0" "store s"] by simp
  have f: "processingTimers ?s' = remove1 (taskId, workerId) (processingTimers s)"
    "issued ?s' = issued s" "processing ?s' = processing s"
    by (simp_all add: processingDone_def Let_def console_log_def resolveTask_def settle_def
        split: option.splits)
  have gt: "\<And>j. getTask (store ?s') j = getTask (updateTask taskId ?f (store s)) j"
    by (simp add: getTask_def tk)
  have k: "\<forall>e \<in> set (tasks (updateTask taskId ?f (store s))). task_id (snd e) = fst e"
    using twf by (intro ids_updateTask) (simp_all add: tasks_wf_def)
  have "\<forall>e \<in> set (tasks (store s)). fst e \<in> set (issued s)"
    using twf by (simp add: tasks_wf_def)
  with keys_updateTask[of taskId ?f "store s"]
  have i: "\<forall>e \<in> set (tasks (updateTask taskId ?f (store s))). fst e \<in> set (issued s)"
    by (rule keys_all)
  have t: "\<forall>e \<in> set (remove1 (taskId, workerId) (processingTimers s)).
      \<exists>t. getTask (updateTask taskId ?f (store s)) (fst e) = Some t \<and> task_status t \<noteq> Pending"
  proof
    fix e assume "e \<in> set (remove1 (taskId, workerId) (processingTimers s))"
    then have "e \<in> set (processingTimers s)"
      using set_remove1_subset[of "(taskId, workerId)" "processingTimers s"] by blast
    with twf obtain t where "getTask (store s) (fst e) = Some t" "task_status t \<noteq> Pending"
      unfolding tasks_wf_def by blast
    then show "\<exists>t. getTask (updateTask taskId ?f (store s)) (fst e) = Some t \<and> task_status t \<noteq> Pending"
      by (auto simp: getTask_updateTask)
  qed
  show ?thesis
    unfolding tasks_wf_def f gt tk using twf k i t
    by (simp add: keys_updateTask tasks_wf_def)
qed

lemma tasks_wf_cong:
  "tasks (store s') = tasks (store s) \<Longrightarrow> processingTimers s' = processingTimers s \<Longrightarrow>
   processing s' = processing s \<Longrightarrow> set (issued s) \<subseteq> set (issued s') \<Longrightarrow>
   tasks_wf s \<Longrightarrow> tasks_wf s'"
  unfolding tasks_wf_def getTask_def by auto

lemma tasks_wf_step:
  assumes twf: "tasks_wf s" and en: "enabled s e"
  shows "tasks_wf (step s e)"
proof (cases e)
  case (Enqueue uuid pl k prio now)
  with en twf show ?thesis by (simp add: tasks_wf_enqueue)
next
  case (EnqueueInPass uuid pl k prio now)
  have "step s e = s\<lparr>store := addTask \<lparr>task_id = uuid, task_type = chat_completion, payload = pl,
              apiKeyId = k, priority = prio, task_status = Pending, assignedWorker = None,
              result = None, error = None, createdAt = now, startedAt = None,
              completedAt = None\<rparr> (store s),
             issued := uuid # issued s, console := console s @ [TaskAdded uuid],
             processing := False\<rparr>"
    using EnqueueInPass by (simp add: enqueue_def processQueue_def Let_def console_log_def)
  moreover have "uuid \<notin> set (issued s)" using en EnqueueInPass by simp
  moreover have "\<And>i t. getTask (store s) i = Some t \<Longrightarrow> i \<in> set (issued s)"
  proof -
    fix i t assume "getTask (store s) i = Some t"
    then have "(i, t) \<in> set (tasks (store s))" by (simp add: getTask_def Map_get_in)
    with twf show "i \<in> set (issued s)" unfolding tasks_wf_def by fastforce
  qed
  ultimately show ?thesis using twf unfolding tasks_wf_def
    by (auto simp: addTask_def distinct_Map_set getTask_def Map_get_set dest!: in_Map_set)
next
  case (ProcessingTimerFires taskId workerId now)
  with twf show ?thesis by (simp add: tasks_wf_processingDone)
next
  case (WaitForCompletion t)
  have "tasks_wf (waitForCompletion t s)"
    by (rule tasks_wf_cong[OF _ _ _ _ twf])
       (simp_all add: waitForCompletion_def Let_def settle_def split: option.splits)
  with WaitForCompletion show ?thesis by simp
next
  case (WaiterTimerFires t p)
  have "tasks_wf (step s (WaiterTimerFires t p))"
    by (rule tasks_wf_cong[OF _ _ _ _ twf]) (simp_all add: waiterTimeout_def settle_def)
  with WaiterTimerFires show ?thesis by simp
next
  case (ResolveTask t r)
  have "tasks_wf (resolveTask t r s)"
    by (rule tasks_wf_cong[OF _ _ _ _ twf]) (simp_all add: resolveTask_def settle_def split: option.splits)
  with ResolveTask show ?thesis by simp
next
  case (RejectTask t r)
  have "tasks_wf (rejectTask t r s)"
    by (rule tasks_wf_cong[OF _ _ _ _ twf]) (simp_all add: rejectTask_def settle_def split: option.splits)
  with RejectTask show ?thesis by simp
next
  case (CreateWorker uuid host r1 r2 r3 now)
  have "tasks_wf (step s (CreateWorker uuid host r1 r2 r3 now))"
    by (rule tasks_wf_cong[OF _ _ _ _ twf]) (auto simp: tasks_createWorker)
  with CreateWorker show ?thesis by simp
next
  case (RemoveWorker w)
  have "tasks_wf (step s (RemoveWorker w))"
    by (rule tasks_wf_cong[OF _ _ _ _ twf]) (simp_all add: tasks_removeWorker)
  with RemoveWorker show ?thesis by simp
next
  case (HeartbeatTick draws now)
  have "tasks_wf (step s (HeartbeatTick draws now))"
    by (rule tasks_wf_cong[OF _ _ _ _ twf]) (simp_all add: heartbeat_def tasks_heartbeatLoop)
  with HeartbeatTick show ?thesis by simp
qed

lemma reachable_tasks_wf: "reachable s \<Longrightarrow> tasks_wf s"
proof (induction rule: reachable.induct)
  case reachable_initial
  show ?case by (simp add: tasks_wf_def initial_def)
next
  case (reachable_step s e)
  then show ?case by (simp add: tasks_wf_step)
qed

lemma insort_key_map:
  "insort_key k (g x) (map g xs) = map g (insort_key (\<lambda>a. k (g a)) x xs)"
  by (induction xs) simp_all

lemma sort_key_map: "sort_key k (map g xs) = map g (sort_key (\<lambda>a. k (g a)) xs)"
  by (induction xs) (simp_all add: insort_key_map)

lemma getPendingTasks_createdAt:
  "getPendingTasks (st\<lparr>tasks := map (\<lambda>e. (fst e, (snd e)\<lparr>createdAt := f (snd e)\<rparr>)) (tasks st)\<rparr>)
     = map (\<lambda>t. t\<lparr>createdAt := f t\<rparr>) (getPendingTasks st)"
proof -
  let ?g = "\<lambda>t. t\<lparr>createdAt := f t\<rparr>"
  have "getAllTasks (st\<lparr>tasks := map (\<lambda>e. (fst e, ?g (snd e))) (tasks st)\<rparr>) = map ?g (getAllTasks st)"
    by (simp add: getAllTasks_def Map_values_def)
  moreover have "filter (\<lambda>t. task_status t = Pending) (map ?g (getAllTasks st))
      = map ?g (filter (\<lambda>t. task_status t = Pending) (getAllTasks st))"
    by (simp add: filter_map comp_def)
  ultimately show ?thesis
    by (simp add: getPendingTasks_sort_key sort_key_map)
qed

lemma backlog_eval:
  "map task_id (getAllTasks (store backlog)) = [''t1'', ''t2'', ''t3'', ''t4'']"
  "map task_status (getAllTasks (store backlog)) = [Pending, Pending, Pending, Pending]"
  "map worker_id (getAllWorkers (store backlog)) = [''w1'', ''w2'', ''w3'', ''w4'', ''w5'']"
  "assignedIds (console backlog) = []"
  "processingTimers backlog = []"
  "length (getAvailableWorkers (store backlog)) = 5"
  "map task_id (getPendingTasks (addTask (queued_task ''t5'' 1 6) (store backlog)))
     = [''t2'', ''t4'', ''t1'', ''t3'', ''t5'']"
  "map priority (getPendingTasks (addTask (queued_task ''t5'' 1 6) (store backlog)))
     = [5, 3, 1, 1, 1]"
  "map priority (getAllTasks (addTask (queued_task ''t5'' 1 6) (store backlog))) = [1, 5, 1, 3, 1]"
  "map createdAt (getAllTasks (addTask (queued_task ''t5'' 1 6) (store backlog))) = [1, 2, 3, 4, 6]"
  "enabled backlog (Enqueue ''t5'' req ''key-1'' 1 6)"
  by (simp_all add: backlog_def getAllTasks_def queued_task_def model_defs)

lemma reachable_backlog: "reachable backlog"
  unfolding backlog_def
  by (rule reachable_foldl[OF reachable_initial]) (simp add: model_defs)

lemma backlog_done_eval:
  "processingTimers backlog_done
     = [(''t2'', ''w1''), (''t4'', ''w2''), (''t1'', ''w3''), (''t3'', ''w4''), (''t5'', ''w5'')]"
  "map task_id (getAllTasks (store backlog_done)) = [''t1'', ''t2'', ''t3'', ''t4'', ''t5'']"
  "map task_status (getAllTasks (store backlog_done))
     = [Processing, Processing, Processing, Processing, Processing]"
  "map assignedWorker (getAllTasks (store backlog_done))
     = [Some ''w3'', Some ''w1'', Some ''w4'', Some ''w2'', Some ''w5'']"
  "map startedAt (getAllTasks (store backlog_done)) = [Some 6, Some 6, Some 6, Some 6, Some 6]"
  "map currentLoad (getAllWorkers (store backlog_done)) = [1, 1, 1, 1, 1]"
  by (simp_all add: backlog_done_def backlog_def getAllTasks_def model_defs floor_half)

lemma reachable_workers_first: "reachable workers_first"
  unfolding workers_first_def
  by (rule reachable_foldl[OF reachable_initial]) (simp add: model_defs)

lemma workers_first_eval:
  "map maxCapacity (getAllWorkers (store workers_first)) = [6, 6, 6, 6, 6]"
  "map worker_status (getAllWorkers (store workers_first)) = [Online, Online, Online, Online, Online]"
  "map task_id (getAllTasks (store workers_first)) = [''t1'', ''t2'', ''t3'', ''t4'', ''t5'']"
  "map priority (getAllTasks (store workers_first)) = [1, 5, 1, 3, 1]"
  "map startedAt (getAllTasks (store workers_first)) = [Some 1, Some 2, Some 3, Some 4, Some 5]"
  "assignedIds (console workers_first) = [''t1'', ''t2'', ''t3'', ''t4'', ''t5'']"
  "map fst (processingTimers workers_first) = [''t1'', ''t2'', ''t3'', ''t4'', ''t5'']"
  by (simp_all add: workers_first_def getAllTasks_def model_defs floor_half)

lemma reachable_one_for_five: "reachable one_for_five"
  unfolding one_for_five_def
  by (rule reachable_foldl[OF reachable_initial]) (simp add: model_defs)

lemma one_for_five_eval:
  "map maxCapacity (getAllWorkers (store one_for_five)) = [6]"
  "map currentLoad (getAllWorkers (store one_for_five)) = [1]"
  "map worker_status (getAllWorkers (store one_for_five)) = [Online]"
  "map task_id (getAllTasks (store one_for_five)) = [''t1'', ''t2'', ''t3'', ''t4'', ''t5'']"
  "map priority (getAllTasks (store one_for_five)) = [1, 5, 1, 3, 1]"
  "map task_status (getAllTasks (store one_for_five)) = [Pending, Processing, Pending, Pending, Pending]"
  "assignedIds (console one_for_five) = [''t2'']"
  "processingTimers one_for_five = [(''t2'', ''w1'')]"
  by (simp_all add: one_for_five_def getAllTasks_def model_defs floor_half)

subsection \<open>Completion and the operations that run no pass\<close>

lemma getTask_issued:
  "tasks_wf s \<Longrightarrow> getTask (store s) i = Some t \<Longrightarrow> i \<in> set (issued s)"
proof -
  assume twf: "tasks_wf s" and "getTask (store s) i = Some t"
  then have "(i, t) \<in> set (tasks (store s))" by (simp add: getTask_def Map_get_in)
  with twf show "i \<in> set (issued s)" unfolding tasks_wf_def by fastforce
qed

lemma enqueue_in_pass:
  "step s (EnqueueInPass uuid pl keyId prio now)
     = s\<lparr>store := addTask \<lparr>task_id = uuid, task_type = chat_completion, payload = pl,
              apiKeyId = keyId, priority = prio, task_status = Pending, assignedWorker = None,
              result = None, error = None, createdAt = now, startedAt = None,
              completedAt = None\<rparr> (store s),
         issued := uuid # issued s, console := console s @ [TaskAdded uuid],
         processing := False\<rparr>"
  by (simp add: enqueue_def processQueue_def Let_def console_log_def)

lemma processingDone_effect:
  fixes s0 taskId workerId now
  defines "s' \<equiv> step s0 (ProcessingTimerFires taskId workerId now)"
  shows "getTask (store s') i
           = (if i = taskId
              then map_option (\<lambda>t. t\<lparr>task_status := Completed, completedAt := Some now\<rparr>)
                     (getTask (store s0) taskId)
              else getTask (store s0) i)"
    and "getWorker (store s') j
           = (if j = workerId
              then map_option (\<lambda>w. w\<lparr>currentLoad := max 0 (currentLoad w - 1)\<rparr>)
                     (getWorker (store s0) workerId)
              else getWorker (store s0) j)"
    and "settled s' = settled s0 @ (case Map_get (taskCallbacks s0) taskId of
                                      None \<Rightarrow> []
                                    | Some p \<Rightarrow> [(p, Resolved (Success (Some workerId)))])"
    and "taskCallbacks s' = Map_delete taskId (taskCallbacks s0)"
    and "processingTimers s' = remove1 (taskId, workerId) (processingTimers s0)"
    and "console s' = console s0 @ [TaskCompleted taskId workerId]"
    and "processing s' = processing s0"
    and "waiterTimers s' = waiterTimers s0"
proof -
  let ?s0 = "s0\<lparr>processingTimers := remove1 (taskId, workerId) (processingTimers s0)\<rparr>"
  have e: "s' = processingDone taskId workerId now ?s0" by (simp add: s'_def)
  have "tasks (store s') = tasks (updateTask taskId
      (\<lambda>t. t\<lparr>task_status := Completed, completedAt := Some now\<rparr>) (store s0))"
    unfolding e using tasks_processingDone[of taskId workerId now ?s0]
      updateTask_tasks_cong[of "store ?s0" "store s0"] by simp
  then show "getTask (store s') i
           = (if i = taskId
              then map_option (\<lambda>t. t\<lparr>task_status := Completed, completedAt := Some now\<rparr>)
                     (getTask (store s0) taskId)
              else getTask (store s0) i)"
    using getTask_updateTask[of taskId _ "store s0" i] by (simp add: getTask_def)
  have "workers (store s') = workers (updateWorker workerId
      (\<lambda>w. w\<lparr>currentLoad := max 0 (currentLoad w - 1)\<rparr>) (store s0))"
    unfolding e workers_processingDone by (simp add: updateWorker_def)
  then show "getWorker (store s') j
           = (if j = workerId
              then map_option (\<lambda>w. w\<lparr>currentLoad := max 0 (currentLoad w - 1)\<rparr>)
                     (getWorker (store s0) workerId)
              else getWorker (store s0) j)"
    using getWorker_updateWorker[of workerId _ "store s0" j] by (simp add: getWorker_def)
  have w: "taskCallbacks s' = taskCallbacks (resolveTask taskId (Success (Some workerId)) ?s0)"
    "settled s' = settled (resolveTask taskId (Success (Some workerId)) ?s0)"
    "waiterTimers s' = waiterTimers (resolveTask taskId (Success (Some workerId)) ?s0)"
    unfolding e using waiter_fields_processingDone[of taskId workerId now ?s0] by simp_all
  show "settled s' = settled s0 @ (case Map_get (taskCallbacks s0) taskId of
                                      None \<Rightarrow> []
                                    | Some p \<Rightarrow> [(p, Resolved (Success (Some workerId)))])"
    unfolding w by (simp add: resolveTask_def settle_def split: option.splits)
  show "taskCallbacks s' = Map_delete taskId (taskCallbacks s0)"
    unfolding w by (simp add: resolveTask_def settle_def Map_delete_absent split: option.splits)
  show "waiterTimers s' = waiterTimers s0"
    unfolding w by (simp add: resolveTask_def settle_def split: option.splits)
  show "processingTimers s' = remove1 (taskId, workerId) (processingTimers s0)"
    "console s' = console s0 @ [TaskCompleted taskId workerId]"
    "processing s' = processing s0"
    unfolding e
    by (simp_all add: processingDone_def Let_def console_log_def resolveTask_def settle_def
        split: option.splits)
qed

lemma no_pass_outside_enqueue:
  assumes r: "reachable s" and en: "enabled s e"
    and ne: "\<forall>uuid pl keyId prio now. e \<noteq> Enqueue uuid pl keyId prio now"
  shows "(\<forall>i t. getTask (store s) i = Some t \<and> task_status t = Pending
            \<longrightarrow> getTask (store (step s e)) i = Some t)
       \<and> set (processingTimers (step s e)) \<subseteq> set (processingTimers s)
       \<and> assignedIds (console (step s e)) = assignedIds (console s)"
proof (cases e)
  case (Enqueue uuid pl k prio now)
  with ne show ?thesis by blast
next
  case (EnqueueInPass uuid pl k prio now)
  from r have twf: "tasks_wf s" by (rule reachable_tasks_wf)
  from en EnqueueInPass have fresh: "uuid \<notin> set (issued s)" by simp
  have "getTask (store (step s e)) i = Some t" if "getTask (store s) i = Some t" for i t
  proof -
    from getTask_issued[OF twf that] fresh have "i \<noteq> uuid" by blast
    then show ?thesis using that unfolding EnqueueInPass enqueue_in_pass
      by (simp add: getTask_def addTask_def Map_get_set)
  qed
  then show ?thesis unfolding EnqueueInPass enqueue_in_pass
    by (simp add: assignedIds_append)
next
  case (ProcessingTimerFires taskId workerId now)
  from r have twf: "tasks_wf s" by (rule reachable_tasks_wf)
  from en ProcessingTimerFires have "(taskId, workerId) \<in> set (processingTimers s)" by simp
  with twf obtain t0 where t0: "getTask (store s) taskId = Some t0" "task_status t0 \<noteq> Pending"
    unfolding tasks_wf_def by fastforce
  have "getTask (store (step s e)) i = Some t"
    if "getTask (store s) i = Some t" "task_status t = Pending" for i t
  proof -
    from that t0 have "i \<noteq> taskId" by auto
    then show ?thesis using that(1) unfolding ProcessingTimerFires
      by (simp add: processingDone_effect(1) del: step.simps)
  qed
  then show ?thesis unfolding ProcessingTimerFires
    using set_remove1_subset[of "(taskId, workerId)" "processingTimers s"]
    by (simp add: processingDone_effect(5,6) assignedIds_append del: step.simps)
next
  case (WaitForCompletion t)
  then show ?thesis
    by (simp add: waitForCompletion_def Let_def settle_def split: option.splits)
next
  case (WaiterTimerFires t p)
  then show ?thesis by (simp add: waiterTimeout_def settle_def)
next
  case (ResolveTask t r)
  then show ?thesis by (simp add: resolveTask_def settle_def split: option.splits)
next
  case (RejectTask t r)
  then show ?thesis by (simp add: rejectTask_def settle_def split: option.splits)
next
  case (CreateWorker uuid host r1 r2 r3 now)
  then show ?thesis by (simp add: getTask_def tasks_createWorker)
next
  case (RemoveWorker w)
  then show ?thesis by (simp add: getTask_def tasks_removeWorker)
next
  case (HeartbeatTick draws now)
  then show ?thesis by (simp add: getTask_def heartbeat_def tasks_heartbeatLoop)
qed

lemma one_for_five_done_eval:
  "enabled one_for_five (ProcessingTimerFires ''t2'' ''w1'' 500)"
  "getTask (store one_for_five) ''t4'' = Some (queued_task ''t4'' 3 4)"
  "map task_status (getAllTasks (store one_for_five_done))
     = [Pending, Completed, Pending, Pending, Pending]"
  "map currentLoad (getAllWorkers (store one_for_five_done)) = [0]"
  "map maxCapacity (getAllWorkers (store one_for_five_done)) = [6]"
  "processingTimers one_for_five_done = []"
  "assignedIds (console one_for_five_done) = [''t2'']"
  by (simp_all add: one_for_five_done_def one_for_five_def getAllTasks_def queued_task_def
      model_defs floor_half)

lemma slot_eval:
  "map_option task_status (getTask (store two_enqueued) ''t1'') = Some Processing"
  "map_option task_status (getTask (store two_enqueued) ''t2'') = Some Pending"
  "map_option currentLoad (getWorker (store two_enqueued) ''w1'') = Some 1"
  "assignedIds (console two_enqueued) = [''t1'']"
  "processingTimers two_enqueued = [(''t1'', ''w1'')]"
  "map_option task_status (getTask (store third_enqueued) ''t2'') = Some Processing"
  "map_option task_status (getTask (store third_enqueued) ''t3'') = Some Pending"
  "assignedIds (console third_enqueued) = [''t1'', ''t2'']"
  by (simp_all add: slot_defs)

subsection \<open>A waiter whose timer fires\<close>

lemma reaches_reachable: "reaches s s' \<Longrightarrow> reachable s \<Longrightarrow> reachable s'"
  by (induction rule: reaches.induct) (auto intro: reachable_step)

lemma waiterTimeout_effect:
  fixes s taskId p
  defines "s' \<equiv> step s (WaiterTimerFires taskId p)"
  shows "store s' = store s"
    and "processingTimers s' = processingTimers s"
    and "taskCallbacks s' = Map_delete taskId (taskCallbacks s)"
    and "settled s' = settled s @ (if Map_has (taskCallbacks s) taskId
                                    then [(p, Rejected ''Task timeout'')] else [])"
    and "waiterTimers s' = remove1 (taskId, p) (waiterTimers s)"
    and "nextPromise s' = nextPromise s"
proof -
  have a: "Map_delete taskId (taskCallbacks s) = taskCallbacks s"
    if "\<not> Map_has (taskCallbacks s) taskId"
    using that by (simp add: Map_has_get Map_delete_absent)
  show "store s' = store s" "processingTimers s' = processingTimers s"
    "settled s' = settled s @ (if Map_has (taskCallbacks s) taskId
                                    then [(p, Rejected ''Task timeout'')] else [])"
    "waiterTimers s' = remove1 (taskId, p) (waiterTimers s)"
    "nextPromise s' = nextPromise s"
    by (simp_all add: s'_def waiterTimeout_def settle_def)
  show "taskCallbacks s' = Map_delete taskId (taskCallbacks s)"
    using a by (simp add: s'_def waiterTimeout_def settle_def)
qed

lemma reachable_slow_start: "reachable slow_start"
  unfolding slow_start_def
  by (rule reachable_foldl[OF reachable_initial]) (simp add: model_defs)

lemma slow_start_eval:
  "map_option task_status (getTask (store slow_start) ''t1'') = Some Processing"
  "map_option startedAt (getTask (store slow_start) ''t1'') = Some (Some 29500)"
  "map_option task_status (getTask (store slow_start) ''t2'') = Some Pending"
  "taskCallbacks slow_start = [(''t1'', 0)]"
  "waiterTimers slow_start = [(''t1'', 0)]"
  "processingTimers slow_start = [(''t1'', ''w1'')]"
  "settled slow_start = []"
  "enabled slow_start (WaiterTimerFires ''t1'' 0)"
  by (simp_all add: slow_start_def model_defs floor_half)

lemma slow_done_eval:
  "store slow_timed_out = store slow_start"
  "processingTimers slow_timed_out = [(''t1'', ''w1'')]"
  "taskCallbacks slow_timed_out = []"
  "settled slow_timed_out = [(0, Rejected ''Task timeout'')]"
  "enabled slow_timed_out (ProcessingTimerFires ''t1'' ''w1'' 31000)"
  "map_option task_status (getTask (store slow_done) ''t1'') = Some Completed"
  "map_option completedAt (getTask (store slow_done) ''t1'') = Some (Some 31000)"
  "map_option result (getTask (store slow_done) ''t1'') = Some None"
  "settled slow_done = [(0, Rejected ''Task timeout'')]"
  by (simp_all add: slow_done_def slow_timed_out_def slow_start_def model_defs floor_half)

lemma reaches_slow_done: "reaches slow_timed_out slow_done"
  unfolding slow_done_def
  by (rule reaches_step[OF reaches_refl]) (rule slow_done_eval(5))

lemma reachable_two_waiters: "reachable two_waiters"
  unfolding two_waiters_def
  by (rule reachable_foldl[OF reachable_initial]) (simp add: model_defs)

lemma two_waiters_eval:
  "map_option task_status (getTask (store two_waiters) ''t1'') = Some Pending"
  "waiterTimers two_waiters = [(''t1'', 0), (''t1'', 1)]"
  "taskCallbacks two_waiters = [(''t1'', 1)]"
  "nextPromise two_waiters = 2"
  "settled two_waiters = []"
  "enabled two_waiters (WaiterTimerFires ''t1'' 0)"
  "taskCallbacks first_timed_out = []"
  "waiterTimers first_timed_out = [(''t1'', 1)]"
  "settled first_timed_out = [(0, Rejected ''Task timeout'')]"
  "enabled first_timed_out (WaiterTimerFires ''t1'' 1)"
  "\<not> Map_has (taskCallbacks first_timed_out) ''t1''"
  "waiterTimers both_timed_out = []"
  "settled both_timed_out = [(0, Rejected ''Task timeout'')]"
  "map_option task_status (getTask (store both_timed_out) ''t1'') = Some Pending"
  by (simp_all add: both_timed_out_def first_timed_out_def two_waiters_def model_defs)

lemma reachable_first_timed_out: "reachable first_timed_out"
  unfolding first_timed_out_def
  using reachable_two_waiters two_waiters_eval(6) by (rule reachable_step)

section \<open>Claims\<close>

text \<open>
  C1, as stated, fails. One online worker of capacity 1, two tasks enqueued: the first is
  given to the worker, the second is left pending, and the store is the same when the second
  call is made while the pass of the first is still running. When the first task completes,
  the worker's load is back to 0, no timer is armed, and the second task is still pending.
\<close>

theorem pending_after_completion:
  "map worker_status (getAllWorkers (store single_slot)) = [Online]
   \<and> map maxCapacity (getAllWorkers (store single_slot)) = [1]
   \<and> map_option task_status (getTask (store two_enqueued) ''t1'') = Some Processing
   \<and> map_option task_status (getTask (store two_enqueued) ''t2'') = Some Pending
   \<and> store (step (step single_slot (Enqueue ''t1'' req ''key-1'' 0 10))
               (EnqueueInPass ''t2'' req ''key-1'' 0 10)) = store two_enqueued
   \<and> enabled two_enqueued (ProcessingTimerFires ''t1'' ''w1'' 500)
   \<and> map_option task_status (getTask (store first_done) ''t1'') = Some Completed
   \<and> map_option currentLoad (getWorker (store first_done) ''w1'') = Some 0
   \<and> map_option task_status (getTask (store first_done) ''t2'') = Some Pending
   \<and> map_option assignedWorker (getTask (store first_done) ''t2'') = Some None
   \<and> processingTimers first_done = []
   \<and> waiterTimers first_done = []"
  by (simp add: slot_defs)

text \<open>
  C1, amended. A scheduling pass runs within \<^verbatim>\<open>enqueue\<close> only. The completion callback sets
  its task to completed with the time of completion, lowers the load of its worker by one
  (not below 0), resolves the waiter registered for the task, if there is one, with the
  success payload and removes its entry, and its own timer is no longer armed; it changes no
  other task and no other worker. And no operation other than a call of \<^verbatim>\<open>enqueue\<close> that starts a pass
  (not a completion, a call of \<^verbatim>\<open>enqueue\<close> arriving during a pass, an operation or a timeout
  of a waiter, the registration or removal of a worker, a heartbeat) changes a task that is
  pending, arms a processing timer or logs an assignment: a pending task stays pending when
  a completion frees capacity, until the pass of a later call of \<^verbatim>\<open>enqueue\<close>. With one worker
  of capacity 1 and two tasks enqueued, one task is assigned at once, the other is still
  pending after the first has completed, and the pass of the next \<^verbatim>\<open>enqueue\<close> assigns it;
  with one worker of capacity 6 holding one of five tasks, the other four are still pending
  after the completion has brought its load back to 0.
\<close>

theorem completion_runs_no_pass:
  "(let s' = step s0 (ProcessingTimerFires taskId workerId now) in
      getTask (store s') taskId
        = map_option (\<lambda>t. t\<lparr>task_status := Completed, completedAt := Some now\<rparr>)
            (getTask (store s0) taskId)
    \<and> (\<forall>i. i \<noteq> taskId \<longrightarrow> getTask (store s') i = getTask (store s0) i)
    \<and> getWorker (store s') workerId
        = map_option (\<lambda>w. w\<lparr>currentLoad := max 0 (currentLoad w - 1)\<rparr>)
            (getWorker (store s0) workerId)
    \<and> (\<forall>j. j \<noteq> workerId \<longrightarrow> getWorker (store s') j = getWorker (store s0) j)
    \<and> settled s' = settled s0 @ (case Map_get (taskCallbacks s0) taskId of
                                    None \<Rightarrow> []
                                  | Some p \<Rightarrow> [(p, Resolved (Success (Some workerId)))])
    \<and> taskCallbacks s' = Map_delete taskId (taskCallbacks s0)
    \<and> processingTimers s' = remove1 (taskId, workerId) (processingTimers s0)
    \<and> console s' = console s0 @ [TaskCompleted taskId workerId]
    \<and> processing s' = processing s0)
   \<and> (reachable s \<and> enabled s e
        \<and> (\<forall>uuid pl keyId prio t. e \<noteq> Enqueue uuid pl keyId prio t) \<longrightarrow>
          (\<forall>i t. getTask (store s) i = Some t \<and> task_status t = Pending
              \<longrightarrow> getTask (store (step s e)) i = Some t)
        \<and> set (processingTimers (step s e)) \<subseteq> set (processingTimers s)
        \<and> assignedIds (console (step s e)) = assignedIds (console s))"
proof (rule conjI)
  show "let s' = step s0 (ProcessingTimerFires taskId workerId now) in
      getTask (store s') taskId
        = map_option (\<lambda>t. t\<lparr>task_status := Completed, completedAt := Some now\<rparr>)
            (getTask (store s0) taskId)
    \<and> (\<forall>i. i \<noteq> taskId \<longrightarrow> getTask (store s') i = getTask (store s0) i)
    \<and> getWorker (store s') workerId
        = map_option (\<lambda>w. w\<lparr>currentLoad := max 0 (currentLoad w - 1)\<rparr>)
            (getWorker (store s0) workerId)
    \<and> (\<forall>j. j \<noteq> workerId \<longrightarrow> getWorker (store s') j = getWorker (store s0) j)
    \<and> settled s' = settled s0 @ (case Map_get (taskCallbacks s0) taskId of
                                    None \<Rightarrow> []
                                  | Some p \<Rightarrow> [(p, Resolved (Success (Some workerId)))])
    \<and> taskCallbacks s' = Map_delete taskId (taskCallbacks s0)
    \<and> processingTimers s' = remove1 (taskId, workerId) (processingTimers s0)
    \<and> console s' = console s0 @ [TaskCompleted taskId workerId]
    \<and> processing s' = processing s0"
    unfolding Let_def
    using processingDone_effect(1)[of s0 taskId workerId now]
      processingDone_effect(2)[of s0 taskId workerId now]
      processingDone_effect(3-7)[of s0 taskId workerId now]
    by simp
next
  show "reachable s \<and> enabled s e
        \<and> (\<forall>uuid pl keyId prio t. e \<noteq> Enqueue uuid pl keyId prio t) \<longrightarrow>
          (\<forall>i t. getTask (store s) i = Some t \<and> task_status t = Pending
              \<longrightarrow> getTask (store (step s e)) i = Some t)
        \<and> set (processingTimers (step s e)) \<subseteq> set (processingTimers s)
        \<and> assignedIds (console (step s e)) = assignedIds (console s)"
    using no_pass_outside_enqueue[of s e] by blast
qed

theorem completion_runs_no_pass_witness:
  "map_option task_status (getTask (store two_enqueued) ''t1'') = Some Processing
   \<and> map_option task_status (getTask (store two_enqueued) ''t2'') = Some Pending
   \<and> map_option currentLoad (getWorker (store two_enqueued) ''w1'') = Some 1
   \<and> map_option task_status (getTask (store first_done) ''t1'') = Some Completed
   \<and> map_option currentLoad (getWorker (store first_done) ''w1'') = Some 0
   \<and> getTask (store first_done) ''t2'' = getTask (store two_enqueued) ''t2''
   \<and> processingTimers first_done = []
   \<and> console first_done = console two_enqueued @ [TaskCompleted ''t1'' ''w1'']
   \<and> assignedIds (console first_done) = [''t1'']
   \<and> map_option task_status (getTask (store third_enqueued) ''t2'') = Some Processing
   \<and> map_option task_status (getTask (store third_enqueued) ''t3'') = Some Pending
   \<and> assignedIds (console third_enqueued) = [''t1'', ''t2'']
   \<and> reachable one_for_five
   \<and> enabled one_for_five (ProcessingTimerFires ''t2'' ''w1'' 500)
   \<and> map task_status (getAllTasks (store one_for_five))
       = [Pending, Processing, Pending, Pending, Pending]
   \<and> map task_status (getAllTasks (store one_for_five_done))
       = [Pending, Completed, Pending, Pending, Pending]
   \<and> map currentLoad (getAllWorkers (store one_for_five_done)) = [0]
   \<and> map maxCapacity (getAllWorkers (store one_for_five_done)) = [6]
   \<and> getTask (store one_for_five_done) ''t4'' = Some (queued_task ''t4'' 3 4)
   \<and> processingTimers one_for_five_done = []
   \<and> assignedIds (console one_for_five_done) = [''t2'']"
proof -
  note inst = completion_runs_no_pass[where ?s0.0 = two_enqueued and taskId = "''t1''"
      and workerId = "''w1''" and now = 500 and s = one_for_five
      and e = "ProcessingTimerFires ''t2'' ''w1'' 500"]
  from inst have a: "getTask (store first_done) ''t1''
        = map_option (\<lambda>t. t\<lparr>task_status := Completed, completedAt := Some 500\<rparr>)
            (getTask (store two_enqueued) ''t1'')"
    "getWorker (store first_done) ''w1''
        = map_option (\<lambda>w. w\<lparr>currentLoad := max 0 (currentLoad w - 1)\<rparr>)
            (getWorker (store two_enqueued) ''w1'')"
    "processingTimers first_done = remove1 (''t1'', ''w1'') (processingTimers two_enqueued)"
    "console first_done = console two_enqueued @ [TaskCompleted ''t1'' ''w1'']"
    unfolding Let_def first_done_def[symmetric] by blast+
  from inst have "\<forall>i. i \<noteq> ''t1'' \<longrightarrow> getTask (store first_done) i = getTask (store two_enqueued) i"
    unfolding Let_def first_done_def[symmetric] by blast
  then have a5: "getTask (store first_done) ''t2'' = getTask (store two_enqueued) ''t2''" by simp
  have a1: "map_option task_status (getTask (store first_done) ''t1'') = Some Completed"
    unfolding a(1) using slot_eval(1) by (cases "getTask (store two_enqueued) ''t1''") simp_all
  have a2: "map_option currentLoad (getWorker (store first_done) ''w1'') = Some 0"
    unfolding a(2) using slot_eval(3) by (cases "getWorker (store two_enqueued) ''w1''") simp_all
  have a3: "processingTimers first_done = []" unfolding a(3) slot_eval(5) by simp
  have a4: "assignedIds (console first_done) = [''t1'']"
    unfolding a(4) by (simp add: assignedIds_append slot_eval(4))
  have ne: "\<forall>uuid pl keyId prio t.
      ProcessingTimerFires ''t2'' ''w1'' 500 \<noteq> Enqueue uuid pl keyId prio t" by simp
  from inst reachable_one_for_five one_for_five_done_eval(1) ne
  have b: "\<forall>i t. getTask (store one_for_five) i = Some t \<and> task_status t = Pending
              \<longrightarrow> getTask (store one_for_five_done) i = Some t"
    unfolding one_for_five_done_def[symmetric] by blast
  have "task_status (queued_task ''t4'' 3 4) = Pending" by (simp add: queued_task_def)
  with b one_for_five_done_eval(2)
  have b1: "getTask (store one_for_five_done) ''t4'' = Some (queued_task ''t4'' 3 4)" by blast
  show ?thesis
    using slot_eval(1-3) a1 a2 a5 a3 a(4) a4 slot_eval(6-8) reachable_one_for_five
      one_for_five_done_eval(1) one_for_five_eval(6) one_for_five_done_eval(3-5) b1
      one_for_five_done_eval(6,7)
    by (intro conjI)
qed

text \<open>
  C2, as stated, fails: the task below has completed, and neither its result nor its error is
  set.
\<close>

theorem completed_task_without_outcome:
  "reachable one_done
   \<and> map_option task_status (getTask (store one_done) ''t1'') = Some Completed
   \<and> map_option result (getTask (store one_done) ''t1'') = Some None
   \<and> map_option error (getTask (store one_done) ''t1'') = Some None"
  using reachable_one_done
  by (simp add: one_done_def one_task_def one_worker_def model_defs req_def)

text \<open>
  C2, amended. In every reachable state no task has its result or its error set, whatever its
  status, and no task is \<open>Failed\<close>: no operation writes either field or that status.
  \<^verbatim>\<open>waitForCompletion\<close> on a completed task settles the new promise at once with the stored
  result, which is undefined, and registers nothing.
\<close>

theorem outcome_fields_never_set:
  "reachable s \<Longrightarrow>
     (\<forall>t \<in> set (getAllTasks (store s)). result t = None \<and> error t = None \<and> task_status t \<noteq> Failed)
   \<and> (\<forall>t. getTask (store s) taskId = Some t \<and> task_status t = Completed \<longrightarrow>
         waitForCompletion taskId s =
           s\<lparr>nextPromise := Suc (nextPromise s),
             settled := settled s @ [(nextPromise s, Resolved Undefined)]\<rparr>)"
proof (intro conjI ballI allI impI)
  assume r: "reachable s"
  note inv = outcome_invariant[OF r]
  { fix t assume "t \<in> set (getAllTasks (store s))"
    with inv have "outcome_unset t" by (auto simp: getAllTasks_def Map_values_def)
    then show "result t = None" "error t = None" "task_status t \<noteq> Failed"
      by (simp_all add: outcome_unset_def) }
  { fix t assume a: "getTask (store s) taskId = Some t \<and> task_status t = Completed"
    then have "(taskId, t) \<in> set (tasks (store s))" by (simp add: getTask_def Map_get_in)
    with inv have "result t = None" by (fastforce simp: outcome_unset_def)
    with a show "waitForCompletion taskId s =
           s\<lparr>nextPromise := Suc (nextPromise s),
             settled := settled s @ [(nextPromise s, Resolved Undefined)]\<rparr>"
      by (simp add: waitForCompletion_def Let_def settle_def) }
qed

theorem outcome_fields_never_set_witness:
  "reachable one_done
   \<and> map task_status (getAllTasks (store one_done)) = [Completed]
   \<and> map result (getAllTasks (store one_done)) = [None]
   \<and> map error (getAllTasks (store one_done)) = [None]
   \<and> settled (waitForCompletion ''t1'' one_done) = settled one_done @ [(0, Resolved Undefined)]
   \<and> taskCallbacks (waitForCompletion ''t1'' one_done) = []"
proof -
  have a: "map task_status (getAllTasks (store one_done)) = [Completed]"
    "map result (getAllTasks (store one_done)) = [None]"
    "map error (getAllTasks (store one_done)) = [None]"
    "taskCallbacks one_done = []" "nextPromise one_done = 0"
    by (simp_all add: getAllTasks_def one_done_def one_task_def one_worker_def model_defs req_def)
  have b: "getTask (store one_done) ''t1'' = Some (hd (getAllTasks (store one_done)))
      \<and> task_status (hd (getAllTasks (store one_done))) = Completed"
    by (simp add: getAllTasks_def one_done_def one_task_def one_worker_def model_defs req_def)
  from outcome_fields_never_set[OF reachable_one_done, of "''t1''"] b
  have "waitForCompletion ''t1'' one_done =
      one_done\<lparr>nextPromise := Suc (nextPromise one_done),
        settled := settled one_done @ [(nextPromise one_done, Resolved Undefined)]\<rparr>"
    by blast
  then show ?thesis using reachable_one_done a by simp
qed

text \<open>
  C3, as stated, fails: after its worker is removed the task is still \<open>Processing\<close> and its
  waiter is not settled; when the processing timer fires, the task is \<open>Completed\<close> and the
  waiter is resolved with the success payload.
\<close>

theorem removed_worker_task_not_failed:
  "reachable lost_worker_done
   \<and> map_option task_status (getTask (store one_waiter) ''t1'') = Some Processing
   \<and> map_option assignedWorker (getTask (store one_waiter) ''t1'') = Some (Some ''w1'')
   \<and> map_option currentLoad (getWorker (store one_waiter) ''w1'') = Some 1
   \<and> getWorker (store lost_worker) ''w1'' = None
   \<and> map_option task_status (getTask (store lost_worker) ''t1'') = Some Processing
   \<and> settled lost_worker = []
   \<and> map_option task_status (getTask (store lost_worker_done) ''t1'') = Some Completed
   \<and> map_option error (getTask (store lost_worker_done) ''t1'') = Some None
   \<and> settled lost_worker_done = [(0, Resolved (Success (Some ''w1'')))]"
  using reachable_lost_worker_done
  by (simp add: lost_worker_done_def lost_worker_def run_defs)

text \<open>
  C3, amended. Removing a worker changes the worker registry only: tasks, waiters, settled
  promises and armed timers stay as they are. When the processing timer of a task fires and
  the worker it was given to is no longer registered, the task is finalized as \<open>Completed\<close>,
  the registry is left unchanged, and the registered waiter, if any, is resolved with the
  success payload.
\<close>

theorem removed_worker_task_completes:
  "(let s' = step s (RemoveWorker workerId) in
      getWorker (store s') workerId = None
    \<and> tasks (store s') = tasks (store s)
    \<and> taskCallbacks s' = taskCallbacks s
    \<and> settled s' = settled s
    \<and> waiterTimers s' = waiterTimers s
    \<and> processingTimers s' = processingTimers s)
   \<and> (getWorker (store s) workerId = None \<longrightarrow>
        (let s' = processingDone taskId workerId now s in
           getTask (store s') taskId
             = map_option (\<lambda>t. t\<lparr>task_status := Completed, completedAt := Some now\<rparr>)
                 (getTask (store s) taskId)
         \<and> workers (store s') = workers (store s)
         \<and> (\<forall>p. Map_get (taskCallbacks s) taskId = Some p \<longrightarrow>
               settled s' = settled s @ [(p, Resolved (Success (Some workerId)))])))"
proof (intro conjI impI)
  show "let s' = step s (RemoveWorker workerId) in
      getWorker (store s') workerId = None
    \<and> tasks (store s') = tasks (store s)
    \<and> taskCallbacks s' = taskCallbacks s
    \<and> settled s' = settled s
    \<and> waiterTimers s' = waiterTimers s
    \<and> processingTimers s' = processingTimers s"
    by (simp add: removeWorker_def getWorker_def Map_get_delete)
next
  assume a: "getWorker (store s) workerId = None"
  have g: "getWorker (updateTask taskId (\<lambda>t. t\<lparr>task_status := Completed, completedAt := Some now\<rparr>) (store s)) workerId = None"
    using a by (simp add: getWorker_updateTask)
  have st: "store (processingDone taskId workerId now s)
      = updateTask taskId (\<lambda>t. t\<lparr>task_status := Completed, completedAt := Some now\<rparr>) (store s)"
    using g by (simp add: processingDone_def Let_def store_console_log store_resolveTask)
  have se: "\<And>p. Map_get (taskCallbacks s) taskId = Some p \<Longrightarrow>
      settled (processingDone taskId workerId now s) = settled s @ [(p, Resolved (Success (Some workerId)))]"
    using g by (simp add: processingDone_def Let_def console_log_def resolveTask_def settle_def)
  show "let s' = processingDone taskId workerId now s in
           getTask (store s') taskId
             = map_option (\<lambda>t. t\<lparr>task_status := Completed, completedAt := Some now\<rparr>)
                 (getTask (store s) taskId)
         \<and> workers (store s') = workers (store s)
         \<and> (\<forall>p. Map_get (taskCallbacks s) taskId = Some p \<longrightarrow>
               settled s' = settled s @ [(p, Resolved (Success (Some workerId)))])"
    using se by (simp add: Let_def st getTask_updateTask workers_updateTask)
qed

theorem removed_worker_task_completes_witness:
  "getWorker (store lost_worker) ''w1'' = None
   \<and> tasks (store lost_worker) = tasks (store one_waiter)
   \<and> Map_get (taskCallbacks lost_worker) ''t1'' = Some 0
   \<and> map_option task_status (getTask (store (processingDone ''t1'' ''w1'' 500 lost_worker)) ''t1'')
       = Some Completed
   \<and> workers (store (processingDone ''t1'' ''w1'' 500 lost_worker)) = []
   \<and> settled (processingDone ''t1'' ''w1'' 500 lost_worker) = [(0, Resolved (Success (Some ''w1'')))]"
proof -
  have a: "getWorker (store lost_worker) ''w1'' = None"
    "Map_get (taskCallbacks lost_worker) ''t1'' = Some 0"
    "settled lost_worker = []" "workers (store lost_worker) = []"
    "map_option task_status (getTask (store lost_worker) ''t1'') = Some Processing"
    by (simp_all add: lost_worker_def run_defs)
  from removed_worker_task_completes[of one_waiter "''w1''" "''t1''" 500]
  have r1: "tasks (store lost_worker) = tasks (store one_waiter)"
    by (simp add: Let_def lost_worker_def)
  from removed_worker_task_completes[of lost_worker "''w1''" "''t1''" 500] a(1,2)
  have r2: "getTask (store (processingDone ''t1'' ''w1'' 500 lost_worker)) ''t1''
        = map_option (\<lambda>t. t\<lparr>task_status := Completed, completedAt := Some 500\<rparr>)
            (getTask (store lost_worker) ''t1'')"
    and r3: "workers (store (processingDone ''t1'' ''w1'' 500 lost_worker)) = workers (store lost_worker)"
    and r4: "settled (processingDone ''t1'' ''w1'' 500 lost_worker)
        = settled lost_worker @ [(0, Resolved (Success (Some ''w1'')))]"
    by (simp_all add: Let_def)
  from a(5) obtain t where "getTask (store lost_worker) ''t1'' = Some t" by auto
  with r2 have "map_option task_status (getTask (store (processingDone ''t1'' ''w1'' 500 lost_worker)) ''t1'')
       = Some Completed" by simp
  with a r1 r3 r4 show ?thesis by simp
qed

text \<open>
  C4, as stated, fails: after \<^verbatim>\<open>rejectTask\<close> the waiter is rejected, but the task is still
  \<open>Processing\<close> with no error recorded and the load of its worker is still 1.
\<close>

theorem rejected_task_not_failed:
  "reachable upstream_failed
   \<and> map_option task_status (getTask (store one_waiter) ''t1'') = Some Processing
   \<and> map_option currentLoad (getWorker (store one_waiter) ''w1'') = Some 1
   \<and> map_option task_status (getTask (store upstream_failed) ''t1'') = Some Processing
   \<and> map_option error (getTask (store upstream_failed) ''t1'') = Some None
   \<and> map_option currentLoad (getWorker (store upstream_failed) ''w1'') = Some 1
   \<and> settled upstream_failed = [(0, Rejected ''NVIDIA API error'')]"
  using reachable_upstream_failed
  by (simp add: upstream_failed_def run_defs)

text \<open>
  C4, amended. When a failure is reported through \<^verbatim>\<open>rejectTask\<close>, the registered waiter, if
  any, is rejected with the error and its entry is removed; the store (the task's status and
  error, the load of every worker) and the armed processing timers are left unchanged.
\<close>

theorem rejectTask_rejects_waiter_only:
  "store (rejectTask taskId err s) = store s
   \<and> processingTimers (rejectTask taskId err s) = processingTimers s
   \<and> (\<forall>p. Map_get (taskCallbacks s) taskId = Some p \<longrightarrow>
         settled (rejectTask taskId err s) = settled s @ [(p, Rejected err)]
       \<and> Map_get (taskCallbacks (rejectTask taskId err s)) taskId = None)"
  by (cases "Map_get (taskCallbacks s) taskId")
     (simp_all add: rejectTask_def settle_def Map_get_delete)

theorem rejectTask_rejects_waiter_only_witness:
  "Map_get (taskCallbacks one_waiter) ''t1'' = Some 0
   \<and> store upstream_failed = store one_waiter
   \<and> processingTimers upstream_failed = [(''t1'', ''w1'')]
   \<and> settled upstream_failed = [(0, Rejected ''NVIDIA API error'')]
   \<and> Map_get (taskCallbacks upstream_failed) ''t1'' = None"
proof -
  have a: "Map_get (taskCallbacks one_waiter) ''t1'' = Some 0" "settled one_waiter = []"
    "processingTimers one_waiter = [(''t1'', ''w1'')]"
    by (simp_all add: run_defs)
  from rejectTask_rejects_waiter_only[of "''t1''" "''NVIDIA API error''" one_waiter]
  show ?thesis using a by (simp add: upstream_failed_def)
qed

text \<open>
  C5. In every reachable state every worker has \<open>0 \<le> currentLoad \<le> maxCapacity\<close>. A worker
  the scheduling pass may pick has a load strictly below its capacity, and assigning a task to
  it stores that load plus one; the completion callback stores \<open>max 0 (currentLoad - 1)\<close>, so
  the load never falls below zero.
\<close>

theorem load_within_capacity:
  "reachable s \<Longrightarrow>
     (\<forall>w \<in> set (getAllWorkers (store s)). 0 \<le> currentLoad w \<and> currentLoad w \<le> maxCapacity w)
   \<and> (\<forall>worker \<in> set (getAvailableWorkers (store s)).
         currentLoad worker < maxCapacity worker
       \<and> getWorker (store (assignTaskToWorker task worker now s)) (worker_id worker)
           = Some (worker\<lparr>currentLoad := currentLoad worker + 1\<rparr>))
   \<and> (\<forall>w. getWorker (store s) workerId = Some w \<longrightarrow>
         getWorker (store (processingDone taskId workerId now s)) workerId
           = Some (w\<lparr>currentLoad := max 0 (currentLoad w - 1)\<rparr>))"
proof (intro conjI ballI allI impI)
  assume r: "reachable s"
  from load_invariant[OF r] have wf: "registry_wf (store s)"
    and ok: "\<forall>e \<in> set (workers (store s)). load_ok (snd e)" by blast+
  { fix w assume "w \<in> set (getAllWorkers (store s))"
    with ok have "load_ok w" by (auto simp: getAllWorkers_def Map_values_def)
    then show "0 \<le> currentLoad w" "currentLoad w \<le> maxCapacity w" by (simp_all add: load_ok_def) }
  { fix worker assume a: "worker \<in> set (getAvailableWorkers (store s))"
    then show "currentLoad worker < maxCapacity worker" by (simp add: getAvailableWorkers_def)
    have "getWorker (store (assignTaskToWorker task worker now s)) (worker_id worker)
        = getWorker (updateWorker (worker_id worker) (\<lambda>w. w\<lparr>currentLoad := currentLoad worker + 1\<rparr>) (store s)) (worker_id worker)"
      by (simp add: getWorker_def workers_assignTaskToWorker)
    then show "getWorker (store (assignTaskToWorker task worker now s)) (worker_id worker)
           = Some (worker\<lparr>currentLoad := currentLoad worker + 1\<rparr>)"
      by (simp add: getWorker_updateWorker getWorker_available[OF wf a]) }
  { fix w assume "getWorker (store s) workerId = Some w"
    moreover have "getWorker (store (processingDone taskId workerId now s)) workerId
        = getWorker (updateWorker workerId (\<lambda>w. w\<lparr>currentLoad := max 0 (currentLoad w - 1)\<rparr>) (store s)) workerId"
      by (simp add: getWorker_def workers_processingDone)
    ultimately show "getWorker (store (processingDone taskId workerId now s)) workerId
           = Some (w\<lparr>currentLoad := max 0 (currentLoad w - 1)\<rparr>)"
      by (simp add: getWorker_updateWorker) }
qed

theorem load_within_capacity_witness:
  "reachable one_task
   \<and> map currentLoad (getAllWorkers (store one_task)) = [1]
   \<and> map maxCapacity (getAllWorkers (store one_task)) = [6]
   \<and> getAvailableWorkers (store one_task) = getAllWorkers (store one_task)
   \<and> map_option currentLoad
        (getWorker (store (assignTaskToWorker (hd (getAllTasks (store one_task)))
                             (hd (getAllWorkers (store one_task))) 20 one_task)) ''w1'') = Some 2
   \<and> map_option currentLoad
        (getWorker (store (processingDone ''t1'' ''w1'' 20 one_task)) ''w1'') = Some 0"
proof -
  have ws: "getAllWorkers (store one_task) =
      [\<lparr>worker_id = ''w1'', hostname = ''worker-1'', worker_status = Online,
        gpuInfo = \<lparr>name = ''NVIDIA RTX 4090'', memoryTotal = 24, memoryUsed = 0, utilization = 0\<rparr>,
        currentLoad = 1, maxCapacity = 6,
        supportedModels = [''gpt-3.5-turbo'', ''gpt-4'', ''llama-2-13b'', ''llama-2-70b''],
        lastHeartbeat = 0\<rparr>]"
    by (simp add: one_task_def one_worker_def model_defs req_def)
  have av: "getAvailableWorkers (store one_task) = getAllWorkers (store one_task)"
    unfolding ws by (simp add: one_task_def one_worker_def model_defs req_def)
  have gw: "getWorker (store one_task) ''w1'' = Some (hd (getAllWorkers (store one_task)))"
    unfolding ws by (simp add: one_task_def one_worker_def model_defs req_def)
  have mem: "hd (getAllWorkers (store one_task)) \<in> set (getAvailableWorkers (store one_task))"
    unfolding av ws by simp
  have wid: "worker_id (hd (getAllWorkers (store one_task))) = ''w1''"
    unfolding ws by simp
  note inst = load_within_capacity[OF reachable_one_task,
      where task = "hd (getAllTasks (store one_task))" and now = 20
        and workerId = "''w1''" and taskId = "''t1''"]
  from inst mem gw wid show ?thesis
    using reachable_one_task av by (auto simp: ws)
qed

text \<open>
  C6, as stated, fails. With three idle workers registered with capacities 2, 4 and 8, every
  ratio is 0 and the task goes to the worker registered first, of capacity 2; registered in
  the opposite order, the same three workers give the task to the one of capacity 8, so the
  tie is broken by registration order and not by identity. And within one pass a worker that
  has been given a task leaves the pool: in the run \<open>staggered\<close>, when \<open>t4\<close> is assigned,
  worker \<open>wA\<close> is online with ratio 1/6, yet \<open>t4\<close> goes to \<open>wB\<close>, whose ratio is 1/3.
\<close>

theorem least_ratio_tie_and_pool:
  "map maxCapacity (getAllWorkers (store three_workers)) = [2, 4, 8]
   \<and> map loadRatio (getAllWorkers (store three_workers)) = [0, 0, 0]
   \<and> map_option assignedWorker
        (getTask (store (enqueue ''t1'' req ''key-1'' 0 1 three_workers)) ''t1'') = Some (Some ''wA'')
   \<and> map_option maxCapacity (getWorker (store three_workers) ''wA'') = Some 2
   \<and> map worker_id (getAllWorkers (store three_workers_rev)) = [''wC'', ''wB'', ''wA'']
   \<and> map_option assignedWorker
        (getTask (store (enqueue ''t1'' req ''key-1'' 0 1 three_workers_rev)) ''t1'') = Some (Some ''wC'')
   \<and> reachable staggered
   \<and> map worker_id (getAvailableWorkers (store staggered_mid)) = [''wB'', ''wA'']
   \<and> map loadRatio (getAvailableWorkers (store staggered_mid)) = [1 / 3, 1 / 6]
   \<and> map maxCapacity (getAvailableWorkers (store staggered_mid)) = [6, 6]
   \<and> map task_id (getPendingTasks (store staggered_mid)) = [''t4'']
   \<and> store staggered_done
        = store (assignTaskToWorker (hd (getPendingTasks (store staggered_mid)))
                  (hd (getAvailableWorkers (store staggered_mid))) 500 staggered_mid)
   \<and> map_option assignedWorker (getTask (store staggered_done) ''t4'') = Some (Some ''wB'')"
  using three_eval three_rev_eval reachable_staggered staggered_eval by (simp only:)

text \<open>
  C6, amended. When a pass assigns a task, the worker chosen has the least load ratio among
  the workers of the pass's pool, and among those of least ratio it is the one that comes
  first in the pool; this is stated for a pool of workers of positive capacity. The pool
  starts as the eligible workers (online, load below capacity) in registration order, and
  the worker chosen leaves it for the rest of the pass.
  So ties go to the earliest registered worker, and three idle workers registered with
  capacities 2, 4, 8 give the task to the first, of capacity 2.
\<close>

theorem least_ratio_first_in_pool:
  "availableWorkers \<noteq> [] \<Longrightarrow> \<forall>w \<in> set availableWorkers. 0 < maxCapacity w \<Longrightarrow>
     \<exists>w pre post.
       selectBestWorker availableWorkers task = Some w
     \<and> availableWorkers = pre @ w # post
     \<and> (\<forall>v \<in> set pre. loadRatio w < loadRatio v)
     \<and> (\<forall>v \<in> set post. loadRatio w \<le> loadRatio v)
     \<and> processLoop (task # rest) availableWorkers now s
         = processLoop rest (spliceWorker (worker_id w) (sortByLoadRatio availableWorkers)) now
             (assignTaskToWorker task w now s)"
proof -
  assume a: "availableWorkers \<noteq> []"
  let ?w = "hd (sort_key loadRatio availableWorkers)"
  from sort_key_hd_first_least[OF a, of loadRatio] obtain pre post where
    p: "availableWorkers = pre @ ?w # post" "\<forall>v \<in> set pre. loadRatio ?w < loadRatio v"
       "\<forall>v \<in> set post. loadRatio ?w \<le> loadRatio v" by blast
  have sel: "selectBestWorker availableWorkers task = Some ?w"
    using a by (rule selectBestWorker_hd)
  have "processLoop (task # rest) availableWorkers now s
      = processLoop rest (spliceWorker (worker_id ?w) (sortByLoadRatio availableWorkers)) now
          (assignTaskToWorker task ?w now s)"
    using a sel by simp
  with sel p show ?thesis by blast
qed

theorem least_ratio_first_in_pool_witness:
  "getAvailableWorkers (store three_workers) \<noteq> []
   \<and> map worker_id (getAvailableWorkers (store three_workers)) = [''wA'', ''wB'', ''wC'']
   \<and> map maxCapacity (getAvailableWorkers (store three_workers)) = [2, 4, 8]
   \<and> map loadRatio (getAvailableWorkers (store three_workers)) = [0, 0, 0]
   \<and> selectBestWorker (getAvailableWorkers (store three_workers)) (queued_task ''t1'' 0 1)
       = Some (idle_worker ''wA'' ''worker-1'' 2)
   \<and> (\<exists>w pre post.
         selectBestWorker (getAvailableWorkers (store three_workers)) (queued_task ''t1'' 0 1) = Some w
       \<and> getAvailableWorkers (store three_workers) = pre @ w # post
       \<and> (\<forall>v \<in> set pre. loadRatio w < loadRatio v)
       \<and> (\<forall>v \<in> set post. loadRatio w \<le> loadRatio v))"
proof -
  have av: "getAvailableWorkers (store three_workers)
      = [idle_worker ''wA'' ''worker-1'' 2, idle_worker ''wB'' ''worker-2'' 4,
         idle_worker ''wC'' ''worker-3'' 8]"
    by (simp add: three_workers_def idle_worker_def model_defs)
  have ne: "getAvailableWorkers (store three_workers) \<noteq> []" unfolding av by simp
  have pos: "\<forall>w \<in> set (getAvailableWorkers (store three_workers)). 0 < maxCapacity w"
    unfolding av by (simp add: idle_worker_def)
  have sel: "selectBestWorker (getAvailableWorkers (store three_workers)) (queued_task ''t1'' 0 1)
       = Some (idle_worker ''wA'' ''worker-1'' 2)"
    unfolding av
    by (simp add: idle_worker_def selectBestWorker_def sortByLoadRatio_def Array_sort_def
        loadRatio_def)
  have ev: "map worker_id (getAvailableWorkers (store three_workers)) = [''wA'', ''wB'', ''wC'']"
    "map maxCapacity (getAvailableWorkers (store three_workers)) = [2, 4, 8]"
    "map loadRatio (getAvailableWorkers (store three_workers)) = [0, 0, 0]"
    unfolding av by (simp_all add: idle_worker_def loadRatio_def)
  from least_ratio_first_in_pool[OF ne pos, of "queued_task ''t1'' 0 1" "[]" 1 three_workers]
  obtain w pre post where
    "selectBestWorker (getAvailableWorkers (store three_workers)) (queued_task ''t1'' 0 1) = Some w
       \<and> getAvailableWorkers (store three_workers) = pre @ w # post
       \<and> (\<forall>v \<in> set pre. loadRatio w < loadRatio v)
       \<and> (\<forall>v \<in> set post. loadRatio w \<le> loadRatio v)" by blast
  then have "\<exists>w pre post.
         selectBestWorker (getAvailableWorkers (store three_workers)) (queued_task ''t1'' 0 1) = Some w
       \<and> getAvailableWorkers (store three_workers) = pre @ w # post
       \<and> (\<forall>v \<in> set pre. loadRatio w < loadRatio v)
       \<and> (\<forall>v \<in> set post. loadRatio w \<le> loadRatio v)" by blast
  with ne sel ev show ?thesis by (simp only:) simp
qed

text \<open>
  C7, as stated, fails. Every call of \<^verbatim>\<open>enqueue\<close> runs a pass at once, so with capacity at
  hand a task is assigned by the pass of its own call: five workers of capacity 6 are
  registered, tasks of priorities 1, 5, 1, 3, 1 are enqueued, and they are assigned in
  enqueue order, the first task of priority 1 before the task of priority 5 is stored. And a
  pass gives one task to each worker of its pool: with the first four tasks enqueued before
  the only worker, of capacity 6, is registered, the pass of the fifth call assigns the task
  of priority 5 and leaves the other four pending, the worker holding one task of six.
\<close>

theorem enqueue_order_and_one_per_worker:
  "reachable workers_first
   \<and> map maxCapacity (getAllWorkers (store workers_first)) = [6, 6, 6, 6, 6]
   \<and> map worker_status (getAllWorkers (store workers_first)) = [Online, Online, Online, Online, Online]
   \<and> map task_id (getAllTasks (store workers_first)) = [''t1'', ''t2'', ''t3'', ''t4'', ''t5'']
   \<and> map priority (getAllTasks (store workers_first)) = [1, 5, 1, 3, 1]
   \<and> map startedAt (getAllTasks (store workers_first)) = [Some 1, Some 2, Some 3, Some 4, Some 5]
   \<and> assignedIds (console workers_first) = [''t1'', ''t2'', ''t3'', ''t4'', ''t5'']
   \<and> map fst (processingTimers workers_first) = [''t1'', ''t2'', ''t3'', ''t4'', ''t5'']
   \<and> reachable one_for_five
   \<and> map maxCapacity (getAllWorkers (store one_for_five)) = [6]
   \<and> map currentLoad (getAllWorkers (store one_for_five)) = [1]
   \<and> map worker_status (getAllWorkers (store one_for_five)) = [Online]
   \<and> map task_id (getAllTasks (store one_for_five)) = [''t1'', ''t2'', ''t3'', ''t4'', ''t5'']
   \<and> map priority (getAllTasks (store one_for_five)) = [1, 5, 1, 3, 1]
   \<and> map task_status (getAllTasks (store one_for_five))
       = [Pending, Processing, Pending, Pending, Pending]
   \<and> assignedIds (console one_for_five) = [''t2'']
   \<and> processingTimers one_for_five = [(''t2'', ''w1'')]"
  using reachable_workers_first workers_first_eval reachable_one_for_five one_for_five_eval
  by (intro conjI)

text \<open>
  C7, amended. A pass runs within a call of \<^verbatim>\<open>enqueue\<close> that finds no pass running, once the
  new task has been stored behind the tasks stored before it. The pass takes the tasks that
  are pending then, by priority, highest first, tasks of equal priority in the order in
  which they were stored (enqueue order; \<open>createdAt\<close> is not read). With \<open>n\<close> workers eligible
  when the pass starts, the first \<open>n\<close> of these tasks are assigned, in that order, each to a
  different worker of the pool: the task is set to processing with that worker and the time
  of the pass, the worker's load goes up by one, and a processing timer is armed. Every
  other task is left as it was. So five tasks of priorities 1, 5, 1, 3, 1 are assigned in the order 5, 3, 1, 1, 1
  (those of priority 1 in enqueue order) when all five are pending at the start of one pass
  that has five eligible workers: in the run \<open>backlog\<close> four of them are enqueued while no
  worker is registered, five workers are registered, and the fifth is enqueued.
\<close>

theorem pass_assigns_head_of_queue:
  assumes "reachable s" and "enabled s (Enqueue uuid pl keyId prio now)"
  shows "let task = \<lparr>task_id = uuid, task_type = chat_completion, payload = pl,
                     apiKeyId = keyId, priority = prio, task_status = Pending,
                     assignedWorker = None, result = None, error = None, createdAt = now,
                     startedAt = None, completedAt = None\<rparr>;
             st = addTask task (store s);
             pend = getPendingTasks st;
             pool = getAvailableWorkers (store s);
             s' = step s (Enqueue uuid pl keyId prio now)
         in getAllTasks st = getAllTasks (store s) @ [task]
          \<and> sorted_wrt (\<lambda>a b. priority a \<ge> priority b) pend
          \<and> (\<forall>p. filter (\<lambda>t. priority t = p) pend
                  = filter (\<lambda>t. priority t = p)
                      (filter (\<lambda>t. task_status t = Pending) (getAllTasks st)))
          \<and> (\<forall>f. getPendingTasks
                    (st\<lparr>tasks := map (\<lambda>e. (fst e, (snd e)\<lparr>createdAt := f (snd e)\<rparr>)) (tasks st)\<rparr>)
                  = map (\<lambda>t. t\<lparr>createdAt := f t\<rparr>) pend)
          \<and> (\<exists>cs. length cs = min (length pool) (length pend)
                \<and> set cs \<subseteq> set pool \<and> distinct (map worker_id cs)
                \<and> processingTimers s'
                    = processingTimers s @ zip (map task_id pend) (map worker_id cs)
                \<and> (\<forall>i < length cs.
                      getTask (store s') (task_id (pend ! i))
                        = Some ((pend ! i)\<lparr>task_status := Processing,
                                            assignedWorker := Some (worker_id (cs ! i)),
                                            startedAt := Some now\<rparr>)
                    \<and> getWorker (store s') (worker_id (cs ! i))
                        = Some ((cs ! i)\<lparr>currentLoad := currentLoad (cs ! i) + 1\<rparr>))
                \<and> (\<forall>j. j \<notin> worker_id ` set cs \<longrightarrow>
                      getWorker (store s') j = getWorker (store s) j))
          \<and> (\<forall>j. j \<notin> task_id ` set (take (length pool) pend) \<longrightarrow>
                getTask (store s') j = getTask st j)
          \<and> assignedIds (console s')
              = assignedIds (console s) @ map task_id (take (length pool) pend)"
proof -
  define task where "task = \<lparr>task_id = uuid, task_type = chat_completion, payload = pl,
                     apiKeyId = keyId, priority = prio, task_status = Pending,
                     assignedWorker = None, result = None, error = None, createdAt = now,
                     startedAt = None, completedAt = None\<rparr>"
  define st where "st = addTask task (store s)"
  define pend where "pend = getPendingTasks st"
  define pool where "pool = getAvailableWorkers (store s)"
  define s' where "s' = enqueue uuid pl keyId prio now s"
  from assms(1) have twf: "tasks_wf s" by (rule reachable_tasks_wf)
  from assms(1) have rwf: "registry_wf (store s)" using load_invariant by blast
  from assms(2) have fresh: "uuid \<notin> set (issued s)" by simp
  from twf have np: "\<not> processing s" by (simp add: tasks_wf_def)
  have nk: "uuid \<notin> fst ` set (tasks (store s))"
  proof
    assume "uuid \<in> fst ` set (tasks (store s))"
    then obtain e where "e \<in> set (tasks (store s))" "fst e = uuid" by auto
    with twf have "uuid \<in> set (issued s)" unfolding tasks_wf_def by blast
    with fresh show False by simp
  qed
  have c1: "getAllTasks st = getAllTasks (store s) @ [task]"
    unfolding st_def using nk by (rule store_order_addTask) (simp add: task_def)
  have "sorted (map (\<lambda>t. - priority t) pend)"
    by (simp add: pend_def getPendingTasks_sort_key)
  then have c2: "sorted_wrt (\<lambda>a b. priority a \<ge> priority b) pend"
    by (simp add: sorted_map)
  have c3: "\<forall>p. filter (\<lambda>t. priority t = p) pend
                  = filter (\<lambda>t. priority t = p)
                      (filter (\<lambda>t. task_status t = Pending) (getAllTasks st))"
  proof
    fix p
    have "filter (\<lambda>t. - priority t = - p) pend
        = filter (\<lambda>t. - priority t = - p) (filter (\<lambda>t. task_status t = Pending) (getAllTasks st))"
      unfolding pend_def getPendingTasks_sort_key by (rule sort_key_stable)
    then show "filter (\<lambda>t. priority t = p) pend
                  = filter (\<lambda>t. priority t = p)
                      (filter (\<lambda>t. task_status t = Pending) (getAllTasks st))"
      by simp
  qed
  have c4: "\<forall>f. getPendingTasks
                    (st\<lparr>tasks := map (\<lambda>e. (fst e, (snd e)\<lparr>createdAt := f (snd e)\<rparr>)) (tasks st)\<rparr>)
                  = map (\<lambda>t. t\<lparr>createdAt := f t\<rparr>) pend"
    unfolding pend_def by (intro allI getPendingTasks_createdAt)
  from enqueue_effect[OF twf rwf fresh, of pl keyId prio now]
  obtain cs where cs: "length cs = min (length pool) (length pend)"
    "set cs \<subseteq> set pool" "distinct (map worker_id cs)"
    "processingTimers s' = processingTimers s @ zip (map task_id pend) (map worker_id cs)"
    "\<forall>i < length cs.
       getTask (store s') (task_id (pend ! i))
         = Some ((pend ! i)\<lparr>task_status := Processing,
                             assignedWorker := Some (worker_id (cs ! i)),
                             startedAt := Some now\<rparr>)
     \<and> getWorker (store s') (worker_id (cs ! i))
         = Some ((cs ! i)\<lparr>currentLoad := currentLoad (cs ! i) + 1\<rparr>)"
    "\<forall>j. j \<notin> task_id ` set (take (length pool) pend) \<longrightarrow> getTask (store s') j = getTask st j"
    "\<forall>j. j \<notin> worker_id ` set cs \<longrightarrow> getWorker (store s') j = getWorker (store s) j"
    unfolding task_def[symmetric] st_def[symmetric] pend_def[symmetric] pool_def[symmetric]
      s'_def[symmetric] by blast
  have c5: "\<exists>cs. length cs = min (length pool) (length pend)
                \<and> set cs \<subseteq> set pool \<and> distinct (map worker_id cs)
                \<and> processingTimers s'
                    = processingTimers s @ zip (map task_id pend) (map worker_id cs)
                \<and> (\<forall>i < length cs.
                      getTask (store s') (task_id (pend ! i))
                        = Some ((pend ! i)\<lparr>task_status := Processing,
                                            assignedWorker := Some (worker_id (cs ! i)),
                                            startedAt := Some now\<rparr>)
                    \<and> getWorker (store s') (worker_id (cs ! i))
                        = Some ((cs ! i)\<lparr>currentLoad := currentLoad (cs ! i) + 1\<rparr>))
                \<and> (\<forall>j. j \<notin> worker_id ` set cs \<longrightarrow>
                      getWorker (store s') j = getWorker (store s) j)"
    using cs(1-5,7) by blast
  have "console s' = console (processLoop pend pool now
      (s\<lparr>store := st, issued := uuid # issued s, console := console s @ [TaskAdded uuid],
         processing := True\<rparr>))"
    unfolding s'_def pend_def pool_def st_def task_def
    using enqueue_unfold[OF np, of uuid pl keyId prio now] by simp
  then have c7: "assignedIds (console s')
              = assignedIds (console s) @ map task_id (take (length pool) pend)"
    by (simp add: processLoop_assigned assignedIds_append take_map)
  have "getAllTasks st = getAllTasks (store s) @ [task]
          \<and> sorted_wrt (\<lambda>a b. priority a \<ge> priority b) pend
          \<and> (\<forall>p. filter (\<lambda>t. priority t = p) pend
                  = filter (\<lambda>t. priority t = p)
                      (filter (\<lambda>t. task_status t = Pending) (getAllTasks st)))
          \<and> (\<forall>f. getPendingTasks
                    (st\<lparr>tasks := map (\<lambda>e. (fst e, (snd e)\<lparr>createdAt := f (snd e)\<rparr>)) (tasks st)\<rparr>)
                  = map (\<lambda>t. t\<lparr>createdAt := f t\<rparr>) pend)
          \<and> (\<exists>cs. length cs = min (length pool) (length pend)
                \<and> set cs \<subseteq> set pool \<and> distinct (map worker_id cs)
                \<and> processingTimers s'
                    = processingTimers s @ zip (map task_id pend) (map worker_id cs)
                \<and> (\<forall>i < length cs.
                      getTask (store s') (task_id (pend ! i))
                        = Some ((pend ! i)\<lparr>task_status := Processing,
                                            assignedWorker := Some (worker_id (cs ! i)),
                                            startedAt := Some now\<rparr>)
                    \<and> getWorker (store s') (worker_id (cs ! i))
                        = Some ((cs ! i)\<lparr>currentLoad := currentLoad (cs ! i) + 1\<rparr>))
                \<and> (\<forall>j. j \<notin> worker_id ` set cs \<longrightarrow>
                      getWorker (store s') j = getWorker (store s) j))
          \<and> (\<forall>j. j \<notin> task_id ` set (take (length pool) pend) \<longrightarrow>
                getTask (store s') j = getTask st j)
          \<and> assignedIds (console s')
              = assignedIds (console s) @ map task_id (take (length pool) pend)"
    using c1 c2 c3 c4 c5 cs(6) c7 by (intro conjI)
  then show ?thesis
    unfolding Let_def step.simps task_def st_def pend_def pool_def s'_def .
qed

theorem pass_assigns_head_of_queue_witness:
  "reachable backlog
   \<and> enabled backlog (Enqueue ''t5'' req ''key-1'' 1 6)
   \<and> map priority (getAllTasks (addTask (queued_task ''t5'' 1 6) (store backlog))) = [1, 5, 1, 3, 1]
   \<and> map createdAt (getAllTasks (addTask (queued_task ''t5'' 1 6) (store backlog))) = [1, 2, 3, 4, 6]
   \<and> map task_id (getPendingTasks (addTask (queued_task ''t5'' 1 6) (store backlog)))
       = [''t2'', ''t4'', ''t1'', ''t3'', ''t5'']
   \<and> map priority (getPendingTasks (addTask (queued_task ''t5'' 1 6) (store backlog)))
       = [5, 3, 1, 1, 1]
   \<and> length (getAvailableWorkers (store backlog)) = 5
   \<and> processingTimers backlog_done
       = [(''t2'', ''w1''), (''t4'', ''w2''), (''t1'', ''w3''), (''t3'', ''w4''), (''t5'', ''w5'')]
   \<and> map task_status (getAllTasks (store backlog_done))
       = [Processing, Processing, Processing, Processing, Processing]
   \<and> map assignedWorker (getAllTasks (store backlog_done))
       = [Some ''w3'', Some ''w1'', Some ''w4'', Some ''w2'', Some ''w5'']
   \<and> map startedAt (getAllTasks (store backlog_done)) = [Some 6, Some 6, Some 6, Some 6, Some 6]
   \<and> map currentLoad (getAllWorkers (store backlog_done)) = [1, 1, 1, 1, 1]
   \<and> assignedIds (console backlog_done) = [''t2'', ''t4'', ''t1'', ''t3'', ''t5'']"
proof -
  note inst = pass_assigns_head_of_queue[OF reachable_backlog backlog_eval(11)]
  have "assignedIds (console backlog_done)
      = assignedIds (console backlog)
        @ map task_id (take (length (getAvailableWorkers (store backlog)))
            (getPendingTasks (addTask (queued_task ''t5'' 1 6) (store backlog))))"
    using inst unfolding Let_def backlog_done_def[symmetric] queued_task_def by blast
  then have "assignedIds (console backlog_done) = [''t2'', ''t4'', ''t1'', ''t3'', ''t5'']"
    unfolding backlog_eval(4) backlog_eval(6) using backlog_eval(7)
    by (simp add: take_map[symmetric])
  then show ?thesis
    using reachable_backlog backlog_eval(6-11) backlog_done_eval(1,3-6) by (intro conjI)
qed

text \<open>
  C8, as stated, fails. The result of the task is not retained: when the task completes
  after its waiter has timed out, the success payload is handed to \<^verbatim>\<open>resolveTask\<close>, which
  finds no entry and drops it, and the \<open>result\<close> of the stored task stays unset. And a
  caller whose timer fires before the task is resolved or rejected need not be rejected:
  when two callers wait for one pending task, the second registration replaces the entry of
  the first; the timer of the first caller removes the entry, which is the second caller's,
  and rejects the first caller; the timer of the second caller then finds no entry and does
  nothing, so the second caller is never settled.
\<close>

theorem timeout_drops_result_and_second_waiter:
  "reachable slow_start
   \<and> taskCallbacks slow_start = [(''t1'', 0)]
   \<and> map_option task_status (getTask (store slow_start) ''t1'') = Some Processing
   \<and> map_option startedAt (getTask (store slow_start) ''t1'') = Some (Some 29500)
   \<and> enabled slow_start (WaiterTimerFires ''t1'' 0)
   \<and> settled slow_timed_out = [(0, Rejected ''Task timeout'')]
   \<and> enabled slow_timed_out (ProcessingTimerFires ''t1'' ''w1'' 31000)
   \<and> map_option task_status (getTask (store slow_done) ''t1'') = Some Completed
   \<and> map_option result (getTask (store slow_done) ''t1'') = Some None
   \<and> settled slow_done = [(0, Rejected ''Task timeout'')]
   \<and> reachable two_waiters
   \<and> map_option task_status (getTask (store two_waiters) ''t1'') = Some Pending
   \<and> waiterTimers two_waiters = [(''t1'', 0), (''t1'', 1)]
   \<and> taskCallbacks two_waiters = [(''t1'', 1)]
   \<and> nextPromise two_waiters = 2
   \<and> enabled two_waiters (WaiterTimerFires ''t1'' 0)
   \<and> taskCallbacks first_timed_out = []
   \<and> settled first_timed_out = [(0, Rejected ''Task timeout'')]
   \<and> enabled first_timed_out (WaiterTimerFires ''t1'' 1)
   \<and> waiterTimers both_timed_out = []
   \<and> settled both_timed_out = [(0, Rejected ''Task timeout'')]
   \<and> map_option task_status (getTask (store both_timed_out) ''t1'') = Some Pending"
  using reachable_slow_start slow_start_eval(4,1,2,8) slow_done_eval(4,5,6,8,9)
    reachable_two_waiters two_waiters_eval(1,2,3,4,6,7,9,10,12,13,14)
  by (intro conjI)

text \<open>
  C8, amended. When the timer of a waiter fires, the entry registered for its task, if there
  is one, is removed, whichever caller registered it, and \<^verbatim>\<open>reject\<close> is called with
  \<open>Task timeout\<close> on the promise of the caller whose timer it is; if no entry is registered
  for the task, the timer does nothing. Either way the store, and with it the task, is unchanged, and the
  processing timer of the task stays armed, so the task still completes when that timer
  fires: its status becomes completed and \<open>completedAt\<close> is set. No result is stored on the
  task, then or later, and once its timer has fired the promise of the caller is not settled
  again, so nothing is delivered to it. For a caller whose own entry was still registered
  the timeout is the only settlement the promise ever receives.
\<close>

theorem waiter_timeout_effect:
  assumes "reachable s" and "enabled s (WaiterTimerFires taskId p)"
    and "reaches (step s (WaiterTimerFires taskId p)) s''"
  shows "let s' = step s (WaiterTimerFires taskId p) in
      store s' = store s
    \<and> processingTimers s' = processingTimers s
    \<and> taskCallbacks s' = Map_delete taskId (taskCallbacks s)
    \<and> waiterTimers s' = remove1 (taskId, p) (waiterTimers s)
    \<and> settled s' = settled s @ (if Map_has (taskCallbacks s) taskId
                                  then [(p, Rejected ''Task timeout'')] else [])
    \<and> (\<forall>workerId now.
          getTask (store (step s' (ProcessingTimerFires taskId workerId now))) taskId
            = map_option (\<lambda>t. t\<lparr>task_status := Completed, completedAt := Some now\<rparr>)
                (getTask (store s) taskId))
    \<and> (\<forall>t. getTask (store s'') taskId = Some t \<longrightarrow> result t = None)
    \<and> filter (\<lambda>e. fst e = p) (settled s'') = filter (\<lambda>e. fst e = p) (settled s')
    \<and> (Map_get (taskCallbacks s) taskId = Some p \<longrightarrow>
          filter (\<lambda>e. fst e = p) (settled s'') = [(p, Rejected ''Task timeout'')])"
proof -
  define s' where "s' = step s (WaiterTimerFires taskId p)"
  note f = waiterTimeout_effect[of s taskId p, folded s'_def]
  from assms(1) have wf: "waiters_wf s" by (rule reachable_waiters_wf)
  from assms(2) have armed: "(taskId, p) \<in> set (waiterTimers s)" by simp
  have wf': "waiters_wf s'" unfolding s'_def using wf assms(2) by (rule waiters_wf_step)
  from wf armed have "p < nextPromise s" by (force simp: waiters_wf_def)
  then have lt': "p < nextPromise s'" unfolding f(6) .
  from wf have "distinct (map snd (waiterTimers s))" by (simp add: waiters_wf_def)
  then have "p \<notin> snd ` set (remove1 (taskId, p) (waiterTimers s))"
    using armed by (rule timer_promise_gone)
  then have nt': "p \<notin> snd ` set (waiterTimers s')" unfolding f(5) .
  from assms(3) have later: "reaches s' s''" unfolding s'_def .
  from quiet_reaches[OF later wf' lt' nt']
  have quiet: "filter (\<lambda>e. fst e = p) (settled s'') = filter (\<lambda>e. fst e = p) (settled s')"
    by simp
  have once: "filter (\<lambda>e. fst e = p) (settled s'') = [(p, Rejected ''Task timeout'')]"
    if g: "Map_get (taskCallbacks s) taskId = Some p"
  proof -
    from g have cb: "(taskId, p) \<in> set (taskCallbacks s)" by (rule Map_get_in)
    from g have has: "Map_has (taskCallbacks s) taskId" by (simp add: Map_has_get)
    from wf cb have "p \<notin> fst ` set (settled s)" by (force simp: waiters_wf_def)
    then have "filter (\<lambda>e. fst e = p) (settled s) = []" by (auto simp: filter_empty_conv)
    then show ?thesis unfolding quiet f(4) using has by simp
  qed
  have completes: "getTask (store (step s' (ProcessingTimerFires taskId workerId now))) taskId
            = map_option (\<lambda>t. t\<lparr>task_status := Completed, completedAt := Some now\<rparr>)
                (getTask (store s) taskId)" for workerId now
    using processingDone_effect(1)[of s' taskId workerId now taskId]
    by (simp add: f(1) del: step.simps)
  have "reachable s'" unfolding s'_def using assms(1,2) by (rule reachable_step)
  with later have "reachable s''" by (rule reaches_reachable)
  then have unset: "\<forall>e \<in> set (tasks (store s'')). outcome_unset (snd e)"
    by (rule outcome_invariant)
  have res: "result t = None" if "getTask (store s'') taskId = Some t" for t
  proof -
    from that have "(taskId, t) \<in> set (tasks (store s''))" by (simp add: getTask_def Map_get_in)
    with unset show ?thesis by (fastforce simp: outcome_unset_def)
  qed
  have "store s' = store s
    \<and> processingTimers s' = processingTimers s
    \<and> taskCallbacks s' = Map_delete taskId (taskCallbacks s)
    \<and> waiterTimers s' = remove1 (taskId, p) (waiterTimers s)
    \<and> settled s' = settled s @ (if Map_has (taskCallbacks s) taskId
                                  then [(p, Rejected ''Task timeout'')] else [])
    \<and> (\<forall>workerId now.
          getTask (store (step s' (ProcessingTimerFires taskId workerId now))) taskId
            = map_option (\<lambda>t. t\<lparr>task_status := Completed, completedAt := Some now\<rparr>)
                (getTask (store s) taskId))
    \<and> (\<forall>t. getTask (store s'') taskId = Some t \<longrightarrow> result t = None)
    \<and> filter (\<lambda>e. fst e = p) (settled s'') = filter (\<lambda>e. fst e = p) (settled s')
    \<and> (Map_get (taskCallbacks s) taskId = Some p \<longrightarrow>
          filter (\<lambda>e. fst e = p) (settled s'') = [(p, Rejected ''Task timeout'')])"
    using f(1,2,3,5,4) completes res quiet once by (intro conjI allI impI)
  then show ?thesis unfolding Let_def s'_def .
qed

theorem waiter_timeout_effect_witness:
  "reachable slow_start
   \<and> enabled slow_start (WaiterTimerFires ''t1'' 0)
   \<and> reaches slow_timed_out slow_done
   \<and> taskCallbacks slow_start = [(''t1'', 0)]
   \<and> map_option task_status (getTask (store slow_start) ''t1'') = Some Processing
   \<and> store slow_timed_out = store slow_start
   \<and> processingTimers slow_timed_out = [(''t1'', ''w1'')]
   \<and> taskCallbacks slow_timed_out = []
   \<and> settled slow_timed_out = [(0, Rejected ''Task timeout'')]
   \<and> map_option task_status (getTask (store slow_done) ''t1'') = Some Completed
   \<and> map_option completedAt (getTask (store slow_done) ''t1'') = Some (Some 31000)
   \<and> map_option result (getTask (store slow_done) ''t1'') = Some None
   \<and> filter (\<lambda>e. fst e = 0) (settled slow_done) = [(0, Rejected ''Task timeout'')]
   \<and> reachable first_timed_out
   \<and> enabled first_timed_out (WaiterTimerFires ''t1'' 1)
   \<and> reaches both_timed_out both_timed_out
   \<and> \<not> Map_has (taskCallbacks first_timed_out) ''t1''
   \<and> settled both_timed_out = settled first_timed_out
   \<and> store both_timed_out = store first_timed_out
   \<and> filter (\<lambda>e. fst e = 1) (settled both_timed_out) = []"
proof -
  note a = waiter_timeout_effect[OF reachable_slow_start slow_start_eval(8),
      folded slow_timed_out_def, OF reaches_slow_done, unfolded Let_def]
  have g: "Map_get (taskCallbacks slow_start) ''t1'' = Some 0"
    unfolding slow_start_eval(4) by (simp add: Map_get_def)
  from a have a1: "store slow_timed_out = store slow_start"
    and a2: "processingTimers slow_timed_out = processingTimers slow_start"
    and a3: "taskCallbacks slow_timed_out = Map_delete ''t1'' (taskCallbacks slow_start)"
    and a4: "Map_get (taskCallbacks slow_start) ''t1'' = Some 0 \<longrightarrow>
          filter (\<lambda>e. fst e = 0) (settled slow_done) = [(0, Rejected ''Task timeout'')]"
    by blast+
  from a4 g have a5: "filter (\<lambda>e. fst e = 0) (settled slow_done) = [(0, Rejected ''Task timeout'')]"
    by blast
  have a2': "processingTimers slow_timed_out = [(''t1'', ''w1'')]"
    unfolding a2 slow_start_eval(6) ..
  have a3': "taskCallbacks slow_timed_out = []"
    unfolding a3 slow_start_eval(4) by (simp add: Map_delete_def)
  note b = waiter_timeout_effect[OF reachable_first_timed_out two_waiters_eval(10),
      folded both_timed_out_def, OF reaches_refl, unfolded Let_def]
  from b have b1: "store both_timed_out = store first_timed_out"
    and b2: "settled both_timed_out = settled first_timed_out
        @ (if Map_has (taskCallbacks first_timed_out) ''t1''
           then [(1, Rejected ''Task timeout'')] else [])"
    by blast+
  from b2 two_waiters_eval(11) have b2': "settled both_timed_out = settled first_timed_out"
    by simp
  have b3: "filter (\<lambda>e. fst e = 1) (settled both_timed_out) = []"
    unfolding b2' two_waiters_eval(9) by simp
  show ?thesis
    using reachable_slow_start slow_start_eval(8) reaches_slow_done slow_start_eval(4)
      slow_start_eval(1) a1 a2' a3' slow_done_eval(4) slow_done_eval(6-8) a5
      reachable_first_timed_out two_waiters_eval(10) reaches_refl[of both_timed_out]
      two_waiters_eval(11) b2' b1 b3
    by (intro conjI)
qed

text \<open>
  C9. When a waiter is registered for the task id, \<^verbatim>\<open>resolveTask\<close> and \<^verbatim>\<open>rejectTask\<close> call
  its continuation once and remove the entry, leaving the entries of other task ids alone.
  When none is registered they change nothing. A second call on the same task id, of either
  kind, is therefore without effect.
\<close>

theorem waiter_exactly_once:
  "(Map_get (taskCallbacks s) taskId = Some p \<longrightarrow>
      settled (resolveTask taskId res s) = settled s @ [(p, Resolved res)]
    \<and> settled (rejectTask taskId err s) = settled s @ [(p, Rejected err)]
    \<and> Map_get (taskCallbacks (resolveTask taskId res s)) taskId = None
    \<and> Map_get (taskCallbacks (rejectTask taskId err s)) taskId = None
    \<and> (\<forall>j. j \<noteq> taskId \<longrightarrow>
          Map_get (taskCallbacks (resolveTask taskId res s)) j = Map_get (taskCallbacks s) j
        \<and> Map_get (taskCallbacks (rejectTask taskId err s)) j = Map_get (taskCallbacks s) j))
   \<and> (Map_get (taskCallbacks s) taskId = None \<longrightarrow>
        resolveTask taskId res s = s \<and> rejectTask taskId err s = s)
   \<and> resolveTask taskId res' (resolveTask taskId res s) = resolveTask taskId res s
   \<and> rejectTask taskId err' (resolveTask taskId res s) = resolveTask taskId res s
   \<and> resolveTask taskId res' (rejectTask taskId err s) = rejectTask taskId err s
   \<and> rejectTask taskId err' (rejectTask taskId err s) = rejectTask taskId err s"
  by (cases "Map_get (taskCallbacks s) taskId")
     (simp_all add: resolveTask_def rejectTask_def settle_def Map_get_delete)

theorem waiter_exactly_once_witness:
  "Map_get (taskCallbacks one_waiter) ''t1'' = Some 0
   \<and> settled one_waiter = []
   \<and> settled (resolveTask ''t1'' (Success None) one_waiter) = [(0, Resolved (Success None))]
   \<and> settled (rejectTask ''t1'' ''NVIDIA API error'' one_waiter) = [(0, Rejected ''NVIDIA API error'')]
   \<and> settled (rejectTask ''t1'' ''NVIDIA API error'' (resolveTask ''t1'' (Success None) one_waiter))
       = [(0, Resolved (Success None))]
   \<and> Map_get (taskCallbacks one_waiter) ''t2'' = None
   \<and> resolveTask ''t2'' (Success None) one_waiter = one_waiter
   \<and> rejectTask ''t2'' ''NVIDIA API error'' one_waiter = one_waiter"
proof -
  have cb: "taskCallbacks one_waiter = [(''t1'', 0)]" and st: "settled one_waiter = []"
    by (simp_all add: one_waiter_def one_task_def one_worker_def model_defs req_def)
  have a: "Map_get (taskCallbacks one_waiter) ''t1'' = Some 0"
    and b: "Map_get (taskCallbacks one_waiter) ''t2'' = None"
    by (simp_all add: cb Map_get_def)
  from waiter_exactly_once[of one_waiter "''t1''" 0 "Success None" "''NVIDIA API error''"
        "Success None" "''NVIDIA API error''"]
       waiter_exactly_once[of one_waiter "''t2''" 0 "Success None" "''NVIDIA API error''"
        "Success None" "''NVIDIA API error''"]
  show ?thesis using a b st by simp
qed

text \<open>
  C10. No operation stores the status \<open>Busy\<close>: a created worker is \<open>Online\<close>, the heartbeat
  leaves a worker that is not \<open>Busy\<close> at \<open>Online\<close> or \<open>Offline\<close>, and enqueueing (with its
  scheduling pass) and the completion callback change nothing of a worker but its load. So in
  every reachable state each worker is \<open>Online\<close> or \<open>Offline\<close>, and the worker statistics
  report no busy worker.
\<close>

theorem no_worker_ever_busy:
  "worker_status (fst (createWorker uuid host r1 r2 r3 t0 st)) = Online
   \<and> (worker_status worker \<noteq> Busy \<longrightarrow> worker_status (heartbeatUpdates worker d t1 w) \<noteq> Busy)
   \<and> except_load (store (enqueue uuid' pl keyId prio t2 s')) = except_load (store s')
   \<and> except_load (store (processingDone taskId workerId t3 s')) = except_load (store s')
   \<and> (reachable s \<longrightarrow>
        (\<forall>w \<in> set (getAllWorkers (store s)). worker_status w = Online \<or> worker_status w = Offline)
        \<and> busy (getWorkerStats (store s)) = 0)"
proof (intro conjI impI)
  assume r: "reachable s"
  from status_invariant[OF r] have nb: "\<forall>w \<in> set (getAllWorkers (store s)). worker_status w \<noteq> Busy" .
  show "\<forall>w \<in> set (getAllWorkers (store s)). worker_status w = Online \<or> worker_status w = Offline"
  proof
    fix w assume "w \<in> set (getAllWorkers (store s))"
    with nb have "worker_status w \<noteq> Busy" by blast
    then show "worker_status w = Online \<or> worker_status w = Offline" by (cases "worker_status w") simp_all
  qed
  from nb have "filter (\<lambda>w. worker_status w = Busy) (getAllWorkers (store s)) = []"
    by (simp add: filter_empty_conv)
  then show "busy (getWorkerStats (store s)) = 0" by (simp add: getWorkerStats_def Let_def)
qed (simp_all add: createWorker_fields heartbeatUpdates_status except_load_enqueue except_load_processingDone)

theorem no_worker_ever_busy_witness:
  "reachable one_offline
   \<and> map worker_status (getAllWorkers (store one_task)) = [Online]
   \<and> map worker_status (getAllWorkers (store one_offline)) = [Offline]
   \<and> worker_status (heartbeatUpdates (hd (getAllWorkers (store one_task))) (1 / 2, 1 / 2, 0) 1000
        (hd (getAllWorkers (store one_task)))) = Offline
   \<and> busy (getWorkerStats (store one_offline)) = 0
   \<and> offline (getWorkerStats (store one_offline)) = 1"
proof -
  have a: "map worker_status (getAllWorkers (store one_task)) = [Online]"
    by (simp add: one_task_def one_worker_def model_defs req_def)
  have b: "map worker_status (getAllWorkers (store one_offline)) = [Offline]"
    by (simp add: one_offline_def one_task_def one_worker_def model_defs req_def)
  have c: "worker_status (hd (getAllWorkers (store one_task))) \<noteq> Busy"
    by (simp add: one_task_def one_worker_def model_defs req_def)
  have d: "worker_status (heartbeatUpdates (hd (getAllWorkers (store one_task))) (1 / 2, 1 / 2, 0) 1000
        (hd (getAllWorkers (store one_task)))) = Offline"
    by (simp add: one_task_def one_worker_def model_defs req_def)
  have e: "offline (getWorkerStats (store one_offline)) = 1"
    by (simp add: getWorkerStats_def one_offline_def one_task_def one_worker_def model_defs req_def)
  from no_worker_ever_busy[where s = one_offline and worker = "hd (getAllWorkers (store one_task))"]
  show ?thesis using reachable_one_offline a b c d e by simp
qed

end
